theory Spec2Isabelle
  imports Main "HOL-Library.AList"
begin

section \<open>Python strings\<close>

text \<open>
  A Python \<open>str\<close> is a sequence of code points. It is modelled as a \<open>string\<close> whose
  characters are the code points below 256 (Latin-1), one \<open>char\<close> per code point, so that
  \<open>length\<close> is Python's \<open>len\<close>. The character classes below are those of CPython on
  this range.
\<close>

definition ordc :: "char \<Rightarrow> nat" where
  "ordc c = of_char c"

text \<open>The ASCII decimal digits \<open>0\<close> .. \<open>9\<close>: what the regular expression \<open>\d\<close> matches
  on this range, and what the specification calls a decimal digit.\<close>

definition is_decimal :: "char \<Rightarrow> bool" where
  "is_decimal c = (48 \<le> ordc c \<and> ordc c \<le> 57)"

text \<open>The characters for which \<open>str.isdigit\<close> holds: the decimal digits and the
  superscript digits U+00B2, U+00B3 and U+00B9.\<close>

definition isdigit_char :: "char \<Rightarrow> bool" where
  "isdigit_char c = (is_decimal c \<or> ordc c = 178 \<or> ordc c = 179 \<or> ordc c = 185)"

text \<open>\<open>str.isdigit()\<close>: every character is a digit and there is at least one.\<close>

definition isdigit :: "string \<Rightarrow> bool" where
  "isdigit s = (s \<noteq> [] \<and> list_all isdigit_char s)"

text \<open>The characters for which \<open>str.isspace\<close> holds.\<close>

definition isspace_char :: "char \<Rightarrow> bool" where
  "isspace_char c = ((9 \<le> ordc c \<and> ordc c \<le> 13) \<or> (28 \<le> ordc c \<and> ordc c \<le> 32)
     \<or> ordc c = 133 \<or> ordc c = 160)"

definition strip :: "string \<Rightarrow> string" where
  "strip s = rev (dropWhile isspace_char (rev (dropWhile isspace_char s)))"

text \<open>\<open>str.split()\<close> without a separator: the maximal runs of characters that are not
  whitespace. The first argument is the token being read.\<close>

fun split_from :: "string \<Rightarrow> string \<Rightarrow> string list" where
  "split_from cur [] = (if cur = [] then [] else [cur])"
| "split_from cur (c # cs) =
     (if isspace_char c
      then (if cur = [] then split_from [] cs else cur # split_from [] cs)
      else split_from (cur @ [c]) cs)"

definition split :: "string \<Rightarrow> string list" where
  "split s = split_from [] s"

text \<open>\<open>str.lower()\<close>: the upper-case letters of the range are \<open>A\<close> .. \<open>Z\<close> and
  U+00C0 .. U+00DE without U+00D7; each is 32 below its lower-case letter.\<close>

definition lower_char :: "char \<Rightarrow> char" where
  "lower_char c =
     (if (65 \<le> ordc c \<and> ordc c \<le> 90) \<or> (192 \<le> ordc c \<and> ordc c \<le> 222 \<and> ordc c \<noteq> 215)
      then char_of (ordc c + 32) else c)"

definition lower :: "string \<Rightarrow> string" where
  "lower s = map lower_char s"

text \<open>\<open>sep.join(xs)\<close>.\<close>

fun join :: "string \<Rightarrow> string list \<Rightarrow> string" where
  "join sep [] = []"
| "join sep [x] = x"
| "join sep (x # y # ys) = x @ sep @ join sep (y # ys)"

text \<open>The decimal numeral of a natural number, as \<open>str(n)\<close> prints it.\<close>

definition digit_char :: "nat \<Rightarrow> char" where
  "digit_char d = char_of (48 + d)"

fun str_nat :: "nat \<Rightarrow> string" where
  "str_nat n = (if n < 10 then [digit_char n] else str_nat (n div 10) @ [digit_char (n mod 10)])"

declare str_nat.simps [simp del]

section \<open>Exceptions\<close>

text \<open>The exception classes that occur, each with the text that \<open>str(e)\<close> gives.\<close>

datatype py_exc =
    ValueError string
  | KeyError string
  | IndexError string
  | AttributeError string
  | OverflowError string

fun exc_str :: "py_exc \<Rightarrow> string" where
  "exc_str (ValueError m) = m"
| "exc_str (KeyError m) = m"
| "exc_str (IndexError m) = m"
| "exc_str (AttributeError m) = m"
| "exc_str (OverflowError m) = m"

section \<open>Field validators\<close>

text \<open>\<open>Phone.__init__\<close>: the stored value, or the \<open>ValueError\<close> raised.\<close>

definition Phone :: "string \<Rightarrow> py_exc + string" where
  "Phone v =
     (if \<not> isdigit v \<or> length v \<noteq> 10
      then Inl (ValueError ''Phone number must be 10 digits.'')
      else Inr v)"

section \<open>Calendar dates\<close>

text \<open>
  \<open>datetime.date\<close>, with the proleptic Gregorian arithmetic of the standard library:
  the ordinal of a date counts days from 1 January of year 1, which has ordinal 1.
\<close>

record date =
  year :: int
  month :: int
  day :: int

definition is_leap :: "int \<Rightarrow> bool" where
  "is_leap y = (y mod 4 = 0 \<and> (y mod 100 \<noteq> 0 \<or> y mod 400 = 0))"

definition days_before_year :: "int \<Rightarrow> int" where
  "days_before_year y = (let p = y - 1 in p * 365 + p div 4 - p div 100 + p div 400)"

definition DAYS_IN_MONTH :: "int list" where
  "DAYS_IN_MONTH = [-1, 31, 28, 31, 30, 31, 30, 31, 31, 30, 31, 30, 31]"

definition DAYS_BEFORE_MONTH :: "int list" where
  "DAYS_BEFORE_MONTH = [-1, 0, 31, 59, 90, 120, 151, 181, 212, 243, 273, 304, 334]"

definition days_in_month :: "int \<Rightarrow> int \<Rightarrow> int" where
  "days_in_month y m = (if m = 2 \<and> is_leap y then 29 else DAYS_IN_MONTH ! nat m)"

definition days_before_month :: "int \<Rightarrow> int \<Rightarrow> int" where
  "days_before_month y m = DAYS_BEFORE_MONTH ! nat m + (if m > 2 \<and> is_leap y then 1 else 0)"

definition ymd2ord :: "int \<Rightarrow> int \<Rightarrow> int \<Rightarrow> int" where
  "ymd2ord y m d = days_before_year y + days_before_month y m + d"

definition MAXORDINAL :: int where
  "MAXORDINAL = 3652059"

text \<open>The inverse of \<open>ymd2ord\<close>, by the cycles of 400, 100, 4 and 1 years.\<close>

definition ord2ymd :: "int \<Rightarrow> date" where
  "ord2ymd n0 =
     (let n = n0 - 1;
          n400 = n div 146097; n = n mod 146097;
          n100 = n div 36524; n = n mod 36524;
          n4 = n div 1461; n = n mod 1461;
          n1 = n div 365; n = n mod 365;
          y = n400 * 400 + 1 + n100 * 100 + n4 * 4 + n1
      in if n1 = 4 \<or> n100 = 4 then \<lparr>year = y - 1, month = 12, day = 31\<rparr>
         else
           let leapyear = (n1 = 3 \<and> (n4 \<noteq> 24 \<or> n100 = 3));
               m = (n + 50) div 32;
               preceding = DAYS_BEFORE_MONTH ! nat m + (if m > 2 \<and> leapyear then 1 else 0)
           in if preceding > n
              then let m' = m - 1;
                       preceding' = preceding
                         - (DAYS_IN_MONTH ! nat m' + (if m' = 2 \<and> leapyear then 1 else 0))
                   in \<lparr>year = y, month = m', day = n - preceding' + 1\<rparr>
              else \<lparr>year = y, month = m, day = n - preceding + 1\<rparr>)"

definition str_int :: "int \<Rightarrow> string" where
  "str_int i = (if i < 0 then ''-'' @ str_nat (nat (- i)) else str_nat (nat i))"

text \<open>The constructor \<open>date(y, m, d)\<close> with its check of the fields.\<close>

definition mk_date :: "int \<Rightarrow> int \<Rightarrow> int \<Rightarrow> py_exc + date" where
  "mk_date y m d =
     (if \<not> (1 \<le> y \<and> y \<le> 9999) then Inl (ValueError (''year '' @ str_int y @ '' is out of range''))
      else if \<not> (1 \<le> m \<and> m \<le> 12) then Inl (ValueError ''month must be in 1..12'')
      else if \<not> (1 \<le> d \<and> d \<le> days_in_month y m)
        then Inl (ValueError ''day is out of range for month'')
      else Inr \<lparr>year = y, month = m, day = d\<rparr>)"

definition valid_date :: "date \<Rightarrow> bool" where
  "valid_date d = (1 \<le> year d \<and> year d \<le> 9999 \<and> 1 \<le> month d \<and> month d \<le> 12
     \<and> 1 \<le> day d \<and> day d \<le> days_in_month (year d) (month d))"

text \<open>\<open>d.replace(year=y)\<close> builds a new date and checks it again.\<close>

definition replace_year :: "date \<Rightarrow> int \<Rightarrow> py_exc + date" where
  "replace_year d y = mk_date y (month d) (day d)"

definition toordinal :: "date \<Rightarrow> int" where
  "toordinal d = ymd2ord (year d) (month d) (day d)"

text \<open>\<open>a < b\<close> on dates compares year, month and day in this order.\<close>

definition date_less :: "date \<Rightarrow> date \<Rightarrow> bool" where
  "date_less a b = (year a < year b \<or> (year a = year b \<and>
     (month a < month b \<or> (month a = month b \<and> day a < day b))))"

text \<open>\<open>(a - b).days\<close>.\<close>

definition days_between :: "date \<Rightarrow> date \<Rightarrow> int" where
  "days_between a b = toordinal a - toordinal b"

text \<open>\<open>d.weekday()\<close>: Monday is 0, Saturday 5, Sunday 6.\<close>

definition weekday :: "date \<Rightarrow> int" where
  "weekday d = (toordinal d + 6) mod 7"

text \<open>\<open>d + timedelta(days=k)\<close>.\<close>

definition add_days :: "date \<Rightarrow> int \<Rightarrow> py_exc + date" where
  "add_days d k =
     (let o' = toordinal d + k
      in if 0 < o' \<and> o' \<le> MAXORDINAL then Inr (ord2ymd o')
         else Inl (OverflowError ''date value out of range''))"

definition pad2 :: "int \<Rightarrow> string" where
  "pad2 i = (if i < 10 then ''0'' @ str_int i else str_int i)"

text \<open>\<open>d.strftime("%d.%m.%Y")\<close>. The year is printed without padding, as the C library
  of Linux does; it has four digits from the year 1000 on.\<close>

definition strftime_dmY :: "date \<Rightarrow> string" where
  "strftime_dmY d = pad2 (day d) @ ''.'' @ pad2 (month d) @ ''.'' @ str_int (year d)"

section \<open>Parsing a date\<close>

text \<open>
  \<open>datetime.strptime(s, "%d.%m.%Y")\<close> compiles the format into the regular expression
  \<^verbatim>\<open>(?P<d>3[0-1]|[1-2]\d|0[1-9]|[1-9]| [1-9])\.(?P<m>1[0-2]|0[1-9]|[1-9])\.(?P<Y>\d\d\d\d)\<close>
  and matches it at the start of the string. A matcher gives, in the order in which a
  backtracking matcher tries them, the ways to match a prefix: the text matched and the
  rest of the string.
\<close>

type_synonym matcher = "string \<Rightarrow> (string \<times> string) list"

definition re_class :: "(char \<Rightarrow> bool) \<Rightarrow> matcher" where
  "re_class P s = (case s of [] \<Rightarrow> [] | c # r \<Rightarrow> if P c then [([c], r)] else [])"

definition re_seq :: "matcher \<Rightarrow> matcher \<Rightarrow> matcher" where
  "re_seq p q s = [(a @ b, r'). (a, r) \<leftarrow> p s, (b, r') \<leftarrow> q r]"

definition re_alt :: "matcher list \<Rightarrow> matcher" where
  "re_alt ps s = concat (map (\<lambda>p. p s) ps)"

definition re_chr :: "char \<Rightarrow> matcher" where
  "re_chr c = re_class (\<lambda>x. x = c)"

definition re_range :: "char \<Rightarrow> char \<Rightarrow> matcher" where
  "re_range a b = re_class (\<lambda>x. ordc a \<le> ordc x \<and> ordc x \<le> ordc b)"

definition re_digit :: matcher where
  "re_digit = re_class is_decimal"

definition re_d :: matcher where
  "re_d = re_alt [re_seq (re_chr CHR ''3'') (re_range CHR ''0'' CHR ''1''),
                  re_seq (re_range CHR ''1'' CHR ''2'') re_digit,
                  re_seq (re_chr CHR ''0'') (re_range CHR ''1'' CHR ''9''),
                  re_range CHR ''1'' CHR ''9'',
                  re_seq (re_chr CHR '' '') (re_range CHR ''1'' CHR ''9'')]"

definition re_m :: matcher where
  "re_m = re_alt [re_seq (re_chr CHR ''1'') (re_range CHR ''0'' CHR ''2''),
                  re_seq (re_chr CHR ''0'') (re_range CHR ''1'' CHR ''9''),
                  re_range CHR ''1'' CHR ''9'']"

definition re_Y :: matcher where
  "re_Y = re_seq re_digit (re_seq re_digit (re_seq re_digit re_digit))"

text \<open>A group followed by the literal dot: the text of the group and the rest.\<close>

definition re_then_dot :: "matcher \<Rightarrow> matcher" where
  "re_then_dot p s = [(a, r'). (a, r) \<leftarrow> p s, (b, r') \<leftarrow> re_chr CHR ''.'' r]"

text \<open>All matches of the whole expression: the three groups and the unconverted rest.\<close>

definition re_dmY :: "string \<Rightarrow> ((string \<times> string \<times> string) \<times> string) list" where
  "re_dmY s = [((d, m, y), r3). (d, r1) \<leftarrow> re_then_dot re_d s,
                                 (m, r2) \<leftarrow> re_then_dot re_m r1,
                                 (y, r3) \<leftarrow> re_Y r2]"

text \<open>\<open>int(s)\<close> on the text of a group: decimal digits, after a space in one form of the day.\<close>

definition int_of_str :: "string \<Rightarrow> int" where
  "int_of_str s = foldl (\<lambda>a c. 10 * a + (int (ordc c) - 48)) 0 (strip s)"

text \<open>
  \<open>strptime\<close> takes the first match, refuses a rest that is not empty, and builds the date,
  which checks the fields. Every failure is a \<open>ValueError\<close>; the text of the first one is
  abbreviated here (Python quotes the string and the format in it).
\<close>

definition strptime_dmY :: "string \<Rightarrow> py_exc + date" where
  "strptime_dmY s =
     (case re_dmY s of
        [] \<Rightarrow> Inl (ValueError ''time data does not match format'')
      | ((d, m, y), rest) # _ \<Rightarrow>
          if rest \<noteq> [] then Inl (ValueError (''unconverted data remains: '' @ rest))
          else mk_date (int_of_str y) (int_of_str m) (int_of_str d))"

text \<open>\<open>Birthday.__init__\<close>: a \<open>ValueError\<close> of the parser is replaced by the one of the
  format message; the value stored is the string itself.\<close>

definition Birthday :: "string \<Rightarrow> py_exc + string" where
  "Birthday v =
     (case strptime_dmY v of
        Inl (ValueError m) \<Rightarrow> Inl (ValueError ''Birthday must be in DD.MM.YYYY format.'')
      | Inl e \<Rightarrow> Inl e
      | Inr d \<Rightarrow> Inr v)"

section \<open>Records\<close>

text \<open>A \<open>Name\<close>, a \<open>Phone\<close> and a \<open>Birthday\<close> object hold one string, their \<open>value\<close>.\<close>

record Record =
  name :: string
  phones :: "string list"
  birthday :: "string option"

definition Record_init :: "string \<Rightarrow> Record" where
  "Record_init n = \<lparr>name = n, phones = [], birthday = None\<rparr>"

definition add_phone :: "Record \<Rightarrow> string \<Rightarrow> py_exc + Record" where
  "add_phone r phone =
     (case Phone phone of Inl e \<Rightarrow> Inl e | Inr p \<Rightarrow> Inr (r\<lparr>phones := phones r @ [p]\<rparr>))"

text \<open>The loop of \<open>change_phone\<close> over the indices of the list, from index \<open>i\<close> on.\<close>

function change_phone_from :: "nat \<Rightarrow> Record \<Rightarrow> string \<Rightarrow> string \<Rightarrow> py_exc + Record" where
  "change_phone_from i r old_phone new_phone =
     (if i < length (phones r)
      then (if phones r ! i = old_phone
            then (case Phone new_phone of
                    Inl e \<Rightarrow> Inl e
                  | Inr p \<Rightarrow> Inr (r\<lparr>phones := (phones r)[i := p]\<rparr>))
            else change_phone_from (Suc i) r old_phone new_phone)
      else Inl (ValueError ''Old phone number not found.''))"
  by pat_completeness auto
termination
  by (relation "measure (\<lambda>(i, r, old_phone, new_phone). length (phones r) - i)") auto

declare change_phone_from.simps [simp del]

definition change_phone :: "Record \<Rightarrow> string \<Rightarrow> string \<Rightarrow> py_exc + Record" where
  "change_phone r old_phone new_phone = change_phone_from 0 r old_phone new_phone"

definition add_birthday :: "Record \<Rightarrow> string \<Rightarrow> py_exc + Record" where
  "add_birthday r b =
     (case Birthday b of Inl e \<Rightarrow> Inl e | Inr v \<Rightarrow> Inr (r\<lparr>birthday := Some v\<rparr>))"

text \<open>\<open>Record.__str__\<close>.\<close>

definition Record_str :: "Record \<Rightarrow> string" where
  "Record_str r =
     name r @ '': ''
       @ (if phones r \<noteq> [] then join '', '' (phones r) else ''No phones'')
       @ '', Birthday: ''
       @ (case birthday r of Some v \<Rightarrow> v | None \<Rightarrow> ''No birthday'')"

section \<open>The address book\<close>

text \<open>
  \<open>AddressBook\<close> is a \<open>dict\<close>: the entries in the order of insertion, one per key. Storing
  under a key that is present replaces the value in place, storing under a new key appends
  an entry. A record that a handler changes in place is stored again under its key.
\<close>

type_synonym AddressBook = "(string \<times> Record) list"

definition book_get :: "AddressBook \<Rightarrow> string \<Rightarrow> Record option" where
  "book_get book k = map_of book k"

definition book_set :: "AddressBook \<Rightarrow> string \<Rightarrow> Record \<Rightarrow> AddressBook" where
  "book_set book k r = AList.update k r book"

definition add_record :: "AddressBook \<Rightarrow> Record \<Rightarrow> AddressBook" where
  "add_record book r = book_set book (name r) r"

definition book_values :: "AddressBook \<Rightarrow> Record list" where
  "book_values book = map snd book"

text \<open>
  The body of the loop of \<open>get_upcoming_birthdays\<close> for one record: the pairs it appends
  to \<open>upcoming\<close>, or the exception it raises. \<open>today\<close> is the date read from the clock.
\<close>

definition upcoming_entry :: "date \<Rightarrow> Record \<Rightarrow> py_exc + (string \<times> string) list" where
  "upcoming_entry today r =
     (case birthday r of
        None \<Rightarrow> Inr []
      | Some b \<Rightarrow>
          (case strptime_dmY b of
             Inl e \<Rightarrow> Inl e
           | Inr bday \<Rightarrow>
               (case replace_year bday (year today) of
                  Inl e \<Rightarrow> Inl e
                | Inr this_year \<Rightarrow>
                    (case (if date_less this_year today
                           then replace_year this_year (year today + 1)
                           else Inr this_year) of
                       Inl e \<Rightarrow> Inl e
                     | Inr bday_this_year \<Rightarrow>
                         (let delta = days_between bday_this_year today
                          in if delta \<le> 7
                             then (case (if weekday bday_this_year \<ge> 5
                                         then add_days bday_this_year (7 - weekday bday_this_year)
                                         else Inr bday_this_year) of
                                     Inl e \<Rightarrow> Inl e
                                   | Inr congrats_date \<Rightarrow>
                                       Inr [(name r, strftime_dmY congrats_date)])
                             else Inr [])))))"

fun upcoming_loop :: "date \<Rightarrow> Record list \<Rightarrow> (string \<times> string) list
    \<Rightarrow> py_exc + (string \<times> string) list" where
  "upcoming_loop today [] upcoming = Inr upcoming"
| "upcoming_loop today (r # rs) upcoming =
     (case upcoming_entry today r of
        Inl e \<Rightarrow> Inl e
      | Inr new \<Rightarrow> upcoming_loop today rs (upcoming @ new))"

definition get_upcoming_birthdays :: "date \<Rightarrow> AddressBook \<Rightarrow> py_exc + (string \<times> string) list" where
  "get_upcoming_birthdays today book = upcoming_loop today (book_values book) []"

section \<open>Command handlers\<close>

text \<open>
  A handler returns a string or raises, and it may have changed the book before it raises:
  its result is the string or the exception, and the book as it has left it.
\<close>

type_synonym result = "(py_exc + string) \<times> AddressBook"

text \<open>The clause \<open>except (KeyError, ValueError, IndexError, AttributeError)\<close>.\<close>

fun caught :: "py_exc \<Rightarrow> bool" where
  "caught (ValueError m) = True"
| "caught (KeyError m) = True"
| "caught (IndexError m) = True"
| "caught (AttributeError m) = True"
| "caught (OverflowError m) = False"

definition input_error :: "('a \<Rightarrow> result) \<Rightarrow> 'a \<Rightarrow> result" where
  "input_error func a =
     (case func a of
        (Inl e, book) \<Rightarrow> if caught e then (Inr (''Error: '' @ exc_str e), book) else (Inl e, book)
      | (Inr s, book) \<Rightarrow> (Inr s, book))"

text \<open>The \<open>ValueError\<close> of an assignment \<open>x1, ..., xn = args\<close> with another number of
  values, with the text of CPython 3.11.\<close>

definition unpack_error :: "nat \<Rightarrow> nat \<Rightarrow> py_exc" where
  "unpack_error n got =
     (if got < n
      then ValueError (''not enough values to unpack (expected '' @ str_nat n @ '', got ''
                         @ str_nat got @ '')'')
      else ValueError (''too many values to unpack (expected '' @ str_nat n @ '')''))"

definition none_has_no :: "string \<Rightarrow> py_exc" where
  "none_has_no attr =
     AttributeError ([CHR 0x27] @ ''NoneType'' @ [CHR 0x27] @ '' object has no attribute ''
                       @ [CHR 0x27] @ attr @ [CHR 0x27])"

definition add_contact_func :: "string list \<times> AddressBook \<Rightarrow> result" where
  "add_contact_func = (\<lambda>(args, book).
     (case args of
        [n, phone] \<Rightarrow>
          (case book_get book n of
             Some record \<Rightarrow>
               (case add_phone record phone of
                  Inl e \<Rightarrow> (Inl e, book)
                | Inr record' \<Rightarrow> (Inr (''Contact '' @ n @ '' updated.''), book_set book n record'))
           | None \<Rightarrow>
               (case add_phone (Record_init n) phone of
                  Inl e \<Rightarrow> (Inl e, book)
                | Inr record \<Rightarrow> (Inr (''Contact '' @ n @ '' updated.''), add_record book record)))
      | _ \<Rightarrow> (Inl (unpack_error 2 (length args)), book)))"

definition add_contact :: "string list \<times> AddressBook \<Rightarrow> result" where
  "add_contact = input_error add_contact_func"

definition change_contact_func :: "string list \<times> AddressBook \<Rightarrow> result" where
  "change_contact_func = (\<lambda>(args, book).
     (case args of
        [n, old_phone, new_phone] \<Rightarrow>
          (case book_get book n of
             None \<Rightarrow> (Inl (none_has_no ''change_phone''), book)
           | Some record \<Rightarrow>
               (case change_phone record old_phone new_phone of
                  Inl e \<Rightarrow> (Inl e, book)
                | Inr record' \<Rightarrow>
                    (Inr (''Phone number for '' @ n @ '' updated.''), book_set book n record')))
      | _ \<Rightarrow> (Inl (unpack_error 3 (length args)), book)))"

definition change_contact :: "string list \<times> AddressBook \<Rightarrow> result" where
  "change_contact = input_error change_contact_func"

definition show_phone_func :: "string list \<times> AddressBook \<Rightarrow> result" where
  "show_phone_func = (\<lambda>(args, book).
     (case args of
        [] \<Rightarrow> (Inl (IndexError ''list index out of range''), book)
      | n # _ \<Rightarrow>
          (case book_get book n of
             None \<Rightarrow> (Inl (none_has_no ''phones''), book)
           | Some record \<Rightarrow> (Inr (n @ '': '' @ join '', '' (phones record)), book))))"

definition show_phone :: "string list \<times> AddressBook \<Rightarrow> result" where
  "show_phone = input_error show_phone_func"

definition show_all_func :: "AddressBook \<Rightarrow> result" where
  "show_all_func book = (Inr (join [CHR 0x0A] (map Record_str (book_values book))), book)"

definition show_all :: "AddressBook \<Rightarrow> result" where
  "show_all = input_error show_all_func"

text \<open>In \<open>add_birthday_handler\<close> the new record is in the book before the birthday is
  checked.\<close>

definition add_birthday_handler_func :: "string list \<times> AddressBook \<Rightarrow> result" where
  "add_birthday_handler_func = (\<lambda>(args, book).
     (case args of
        [n, b] \<Rightarrow>
          (let (record, book1) =
                 (case book_get book n of
                    Some record \<Rightarrow> (record, book)
                  | None \<Rightarrow> (Record_init n, add_record book (Record_init n)))
           in case add_birthday record b of
                Inl e \<Rightarrow> (Inl e, book1)
              | Inr record' \<Rightarrow> (Inr (''Birthday added for '' @ n @ ''.''), book_set book1 n record'))
      | _ \<Rightarrow> (Inl (unpack_error 2 (length args)), book)))"

definition add_birthday_handler :: "string list \<times> AddressBook \<Rightarrow> result" where
  "add_birthday_handler = input_error add_birthday_handler_func"

definition show_birthday_func :: "string list \<times> AddressBook \<Rightarrow> result" where
  "show_birthday_func = (\<lambda>(args, book).
     (case args of
        [] \<Rightarrow> (Inl (IndexError ''list index out of range''), book)
      | n # _ \<Rightarrow>
          (case book_get book n of
             None \<Rightarrow> (Inl (none_has_no ''birthday''), book)
           | Some record \<Rightarrow>
               (case birthday record of
                  Some v \<Rightarrow> (Inr (n @ [CHR 0x27] @ ''s birthday: '' @ v), book)
                | None \<Rightarrow> (Inr (''No birthday set for '' @ n @ ''.''), book)))))"

definition show_birthday :: "string list \<times> AddressBook \<Rightarrow> result" where
  "show_birthday = input_error show_birthday_func"

definition upcoming_birthdays_func :: "date \<Rightarrow> AddressBook \<Rightarrow> result" where
  "upcoming_birthdays_func today book =
     (case get_upcoming_birthdays today book of
        Inl e \<Rightarrow> (Inl e, book)
      | Inr upcoming \<Rightarrow>
          (if upcoming = [] then (Inr ''No upcoming birthdays.'', book)
           else (Inr (join [CHR 0x0A] (map (\<lambda>(n, d). n @ '': '' @ d) upcoming)), book)))"

definition upcoming_birthdays :: "date \<Rightarrow> AddressBook \<Rightarrow> result" where
  "upcoming_birthdays today = input_error (upcoming_birthdays_func today)"

section \<open>The dispatch loop\<close>

definition commands :: "string list" where
  "commands = [''add'', ''change'', ''phone'', ''all'', ''add-birthday'', ''show-birthday'',
               ''birthdays'']"

text \<open>The call of the handler of a command of \<open>commands\<close>: \<open>all\<close> and \<open>birthdays\<close> get the
  book only.\<close>

definition call_handler :: "date \<Rightarrow> string \<Rightarrow> string list \<Rightarrow> AddressBook \<Rightarrow> result" where
  "call_handler today command args book =
     (if command = ''add'' then add_contact (args, book)
      else if command = ''change'' then change_contact (args, book)
      else if command = ''phone'' then show_phone (args, book)
      else if command = ''all'' then show_all book
      else if command = ''add-birthday'' then add_birthday_handler (args, book)
      else if command = ''show-birthday'' then show_birthday (args, book)
      else upcoming_birthdays today book)"

text \<open>
  One turn of the loop of \<open>main\<close> on the line read: the lines printed and the book, and
  whether the loop goes on, ends after saving the book, or is left by an exception.
\<close>

datatype outcome =
    Continue "string list" AddressBook
  | Exit "string list" AddressBook
  | Crash py_exc AddressBook

definition step :: "date \<Rightarrow> string \<Rightarrow> AddressBook \<Rightarrow> outcome" where
  "step today line book =
     (case split (strip line) of
        [] \<Rightarrow> Continue [] book
      | c # args \<Rightarrow>
          (let command = lower c
           in if command \<in> set [''close'', ''exit''] then Exit [''Goodbye!''] book
              else if command = ''hello'' then Continue [''How can I help you?''] book
              else if command \<in> set commands
                then (case call_handler today command args book of
                        (Inr s, book') \<Rightarrow> Continue [s] book'
                      | (Inl e, book') \<Rightarrow> Crash e book')
              else Continue [''Unknown command. Try again.''] book))"

text \<open>The books that the program can hold: it starts with the empty book when there is
  no file, and every turn of the loop that goes on leads to the next book.\<close>

inductive reachable :: "AddressBook \<Rightarrow> bool" where
  start: "reachable []"
| turn: "reachable book \<Longrightarrow> step today line book = Continue out book' \<Longrightarrow> reachable book'"

section \<open>Notions used in the properties\<close>

text \<open>The date of the congratulation for an occurrence \<open>d\<close> of a birthday: the Monday
  after \<open>d\<close> when \<open>d\<close> is a Saturday or a Sunday, and \<open>d\<close> itself otherwise.\<close>

definition congrats :: "date \<Rightarrow> date" where
  "congrats d = (if weekday d \<ge> 5 then ord2ymd (toordinal d + (7 - weekday d)) else d)"





text \<open>The format of the specification: two digits, a dot, two digits, a dot, four digits;
  and the date that such a string denotes.\<close>

definition DD_MM_YYYY :: "string \<Rightarrow> bool" where
  "DD_MM_YYYY s = (length s = 10 \<and> list_all is_decimal (take 2 s) \<and> s ! 2 = CHR ''.''
     \<and> list_all is_decimal (take 2 (drop 3 s)) \<and> s ! 5 = CHR ''.''
     \<and> list_all is_decimal (drop 6 s))"

definition date_of_text :: "string \<Rightarrow> date" where
  "date_of_text s = \<lparr>year = int_of_str (drop 6 s), month = int_of_str (take 2 (drop 3 s)),
     day = int_of_str (take 2 s)\<rparr>"

text \<open>The constraints that the constructors \<open>Phone\<close> and \<open>Birthday\<close> enforce, and the
  invariant of a record and of the book: the stored phones and the stored birthday meet
  them, no key occurs twice, and a record is stored under its own name.\<close>

definition phone_ok :: "string \<Rightarrow> bool" where
  "phone_ok p = (length p = 10 \<and> list_all isdigit_char p)"

definition birthday_ok :: "string \<Rightarrow> bool" where
  "birthday_ok b = (\<not> isl (strptime_dmY b))"

definition record_inv :: "Record \<Rightarrow> bool" where
  "record_inv r = (list_all phone_ok (phones r)
     \<and> (case birthday r of None \<Rightarrow> True | Some b \<Rightarrow> birthday_ok b))"

definition book_inv :: "AddressBook \<Rightarrow> bool" where
  "book_inv book = (distinct (map fst book)
     \<and> list_all (\<lambda>(k, r). name r = k \<and> record_inv r) book)"

text \<open>The invariant with the constraints as the specification words them: a phone is ten
  decimal digits, a birthday a zero-padded DD.MM.YYYY string of a real date.\<close>

definition ten_decimal_digits :: "string \<Rightarrow> bool" where
  "ten_decimal_digits p = (length p = 10 \<and> list_all is_decimal p)"

definition spec_book_inv :: "AddressBook \<Rightarrow> bool" where
  "spec_book_inv book = (distinct (map fst book)
     \<and> list_all (\<lambda>(k, r). list_all ten_decimal_digits (phones r)
          \<and> (case birthday r of None \<Rightarrow> True
              | Some b \<Rightarrow> DD_MM_YYYY b \<and> valid_date (date_of_text b))) book)"

text \<open>A string without a line feed, and a string that starts with \<open>Error: \<close>.\<close>

definition one_line :: "string \<Rightarrow> bool" where
  "one_line s = (CHR 0x0A \<notin> set s)"

definition is_error_line :: "string \<Rightarrow> bool" where
  "is_error_line s = (take 7 s = ''Error: '')"

text \<open>
  What \<open>input_error\<close> makes of the call \<open>func a\<close>: an exception that \<open>func\<close> raises is one
  of the caught classes, and the handler returns the one line \<open>Error: \<close> followed by its
  text; a string that \<open>func\<close> returns is returned as it is. In both cases the book is the
  one that \<open>func\<close> has left.
\<close>

definition recovered :: "('a \<Rightarrow> result) \<Rightarrow> 'a \<Rightarrow> bool" where
  "recovered func a =
     (case func a of
        (Inl e, book) \<Rightarrow> caught e \<and> one_line (''Error: '' @ exc_str e)
          \<and> input_error func a = (Inr (''Error: '' @ exc_str e), book)
      | (Inr s, book) \<Rightarrow> input_error func a = (Inr s, book))"

section \<open>Phone validation\<close>

lemma ten_nonempty: "length (s :: string) = 10 \<Longrightarrow> s \<noteq> []"
  by auto

lemma is_decimal_isdigit_char: "is_decimal c \<Longrightarrow> isdigit_char c"
  by (simp add: isdigit_char_def)

lemma isdigit_char_ascii: "ordc c < 128 \<Longrightarrow> isdigit_char c = is_decimal c"
  by (auto simp: isdigit_char_def)

lemma Phone_accepts_iff: "Phone v = Inr w \<longleftrightarrow> (w = v \<and> length v = 10 \<and> list_all isdigit_char v)"
  by (auto simp: Phone_def isdigit_def dest: ten_nonempty)

text \<open>
  C2, as stated, at a concrete input: the string of ten superscript twos is accepted by
  \<open>Phone\<close>, and it is not a string of ten decimal digits.
\<close>

theorem Phone_superscript_counterexample:
  "\<not> (isl (Phone [CHR 0xB2, CHR 0xB2, CHR 0xB2, CHR 0xB2, CHR 0xB2,
                   CHR 0xB2, CHR 0xB2, CHR 0xB2, CHR 0xB2, CHR 0xB2])
      \<longleftrightarrow> \<not> (length [CHR 0xB2, CHR 0xB2, CHR 0xB2, CHR 0xB2, CHR 0xB2,
                      CHR 0xB2, CHR 0xB2, CHR 0xB2, CHR 0xB2, CHR 0xB2] = 10
             \<and> list_all is_decimal [CHR 0xB2, CHR 0xB2, CHR 0xB2, CHR 0xB2, CHR 0xB2,
                      CHR 0xB2, CHR 0xB2, CHR 0xB2, CHR 0xB2, CHR 0xB2]))"
  by (simp add: Phone_def isdigit_def isdigit_char_def is_decimal_def ordc_def)

text \<open>
  C2, amended: \<open>Phone\<close> fails, with the \<open>ValueError\<close> of the format message, if and only
  if the string is not exactly ten characters that \<open>str.isdigit\<close> accepts; on strings of
  ASCII characters these are exactly the strings that are not ten decimal digits; and a
  string that is accepted is stored unchanged.
\<close>

theorem Phone_validation:
  "(isl (Phone v) \<longleftrightarrow> \<not> (length v = 10 \<and> list_all isdigit_char v))
   \<and> (isl (Phone v) \<longrightarrow> Phone v = Inl (ValueError ''Phone number must be 10 digits.''))
   \<and> (list_all (\<lambda>c. ordc c < 128) v \<longrightarrow>
        (isl (Phone v) \<longleftrightarrow> \<not> (length v = 10 \<and> list_all is_decimal v)))
   \<and> (length v = 10 \<and> list_all is_decimal v \<longrightarrow> Phone v = Inr v)
   \<and> (\<forall>w. Phone v = Inr w \<longrightarrow> w = v)"
proof -
  have a: "isl (Phone v) \<longleftrightarrow> \<not> (length v = 10 \<and> list_all isdigit_char v)"
    by (auto simp: Phone_def isdigit_def dest: ten_nonempty)
  have b: "isl (Phone v) \<longrightarrow> Phone v = Inl (ValueError ''Phone number must be 10 digits.'')"
    by (simp add: Phone_def)
  have c: "list_all (\<lambda>c. ordc c < 128) v \<Longrightarrow> list_all isdigit_char v = list_all is_decimal v"
    by (induction v) (auto simp: isdigit_char_ascii)
  have d: "length v = 10 \<and> list_all is_decimal v \<longrightarrow> Phone v = Inr v"
    using Phone_accepts_iff [of v v] by (auto simp: list_all_iff is_decimal_isdigit_char)
  have e: "\<forall>w. Phone v = Inr w \<longrightarrow> w = v"
    by (simp add: Phone_accepts_iff)
  from a b c d e show ?thesis by simp
qed

theorem Phone_validation_witness:
  "Phone ''1234567890'' = Inr ''1234567890''
   \<and> Phone ''12345'' = Inl (ValueError ''Phone number must be 10 digits.'')
   \<and> Phone ''12345abcde'' = Inl (ValueError ''Phone number must be 10 digits.'')"
proof -
  have h: "length ''1234567890'' = 10 \<and> list_all is_decimal ''1234567890''"
    by (simp add: is_decimal_def ordc_def)
  have "Phone ''1234567890'' = Inr ''1234567890''"
    using Phone_validation [of "''1234567890''"] h by blast
  moreover have "isl (Phone ''12345'')"
    using Phone_validation [of "''12345''"] by simp
  then have "Phone ''12345'' = Inl (ValueError ''Phone number must be 10 digits.'')"
    using Phone_validation [of "''12345''"] by blast
  moreover have "\<not> list_all isdigit_char ''12345abcde''"
    by (simp add: isdigit_char_def is_decimal_def ordc_def)
  then have "isl (Phone ''12345abcde'')"
    using Phone_validation [of "''12345abcde''"] by blast
  then have "Phone ''12345abcde'' = Inl (ValueError ''Phone number must be 10 digits.'')"
    using Phone_validation [of "''12345abcde''"] by blast
  ultimately show ?thesis by simp
qed

section \<open>Ordinals of dates\<close>

lemma div_succ:
  fixes x k :: int
  assumes "0 < k"
  shows "(x + 1) div k = x div k + (if (x + 1) mod k = 0 then 1 else 0)"
proof -
  define q where "q = x div k"
  define r where "r = x mod k"
  have x: "x = k * q + r" and r: "0 \<le> r" "r < k"
    using assms by (simp_all add: q_def r_def)
  show ?thesis
  proof (cases "r + 1 < k")
    case True
    have e: "x + 1 = k * q + (r + 1)" using x by simp
    have "(x + 1) div k = q"
      by (rule int_div_pos_eq [OF e]) (use r True in simp_all)
    moreover have "(x + 1) mod k = r + 1"
      by (rule int_mod_pos_eq [OF e]) (use r True in simp_all)
    ultimately show ?thesis using r by (simp add: q_def)
  next
    case False
    with r have k: "r + 1 = k" by simp
    have e: "x + 1 = k * (q + 1) + 0" using x k by (simp add: algebra_simps)
    have "(x + 1) div k = q + 1"
      by (rule int_div_pos_eq [OF e]) (use assms in simp_all)
    moreover have "(x + 1) mod k = 0"
      by (rule int_mod_pos_eq [OF e]) (use assms in simp_all)
    ultimately show ?thesis by (simp add: q_def)
  qed
qed

lemma leap_indicator:
  fixes y :: int
  shows "(if is_leap y then 1 else 0)
    = (if y mod 4 = 0 then 1 else 0) - (if y mod 100 = 0 then 1 else 0)
      + (if y mod 400 = 0 then 1 else (0::int))"
proof -
  define A where "A = (y mod 4 = 0)"
  define B where "B = (y mod 100 = 0)"
  define C where "C = (y mod 400 = 0)"
  have "y mod 400 = 0 \<Longrightarrow> y mod 100 = 0"
    using mod_mod_cancel [of 100 400 y] by simp
  then have d: "C \<Longrightarrow> B" by (simp only: B_def C_def)
  have "y mod 100 = 0 \<Longrightarrow> y mod 4 = 0"
    using mod_mod_cancel [of 4 100 y] by simp
  then have e: "B \<Longrightarrow> A" by (simp only: A_def B_def)
  have "(if A \<and> (\<not> B \<or> C) then 1 else 0)
      = (if A then 1 else 0) - (if B then 1 else 0) + (if C then 1 else (0::int))"
    using d e by (cases A; cases B; cases C) simp_all
  then show ?thesis
    by (simp only: is_leap_def A_def B_def C_def)
qed

lemma days_before_next_year:
  "days_before_year (y + 1) = days_before_year y + 365 + (if is_leap y then 1 else 0)"
proof -
  define da :: int where "da = (if y mod 4 = 0 then 1 else 0)"
  define db :: int where "db = (if y mod 100 = 0 then 1 else 0)"
  define dc :: int where "dc = (if y mod 400 = 0 then 1 else 0)"
  have a: "y div 4 = (y - 1) div 4 + da"
    unfolding da_def using div_succ [of 4 "y - 1"] by simp
  have b: "y div 100 = (y - 1) div 100 + db"
    unfolding db_def using div_succ [of 100 "y - 1"] by simp
  have c: "y div 400 = (y - 1) div 400 + dc"
    unfolding dc_def using div_succ [of 400 "y - 1"] by simp
  have f: "(if is_leap y then 1 else 0) = da - db + dc"
    unfolding da_def db_def dc_def by (rule leap_indicator)
  have l: "days_before_year (y + 1) = y * 365 + y div 4 - y div 100 + y div 400"
    by (simp add: days_before_year_def)
  have r: "days_before_year y = (y - 1) * 365 + (y - 1) div 4 - (y - 1) div 100 + (y - 1) div 400"
    by (simp add: days_before_year_def Let_def)
  have g: "\<And>a a' b b' c c' :: int. a = a' + da \<Longrightarrow> b = b' + db \<Longrightarrow> c = c' + dc \<Longrightarrow>
      y * 365 + a - b + c = (y - 1) * 365 + a' - b' + c' + 365 + (da - db + dc)"
    by (simp add: algebra_simps)
  show ?thesis
    unfolding l r f by (rule g [OF a b c])
qed

lemma days_before_year_step: "days_before_year y \<le> days_before_year (y + 1)"
  by (simp add: days_before_next_year)

lemma days_before_year_mono_nat: "days_before_year y \<le> days_before_year (y + int n)"
proof (induction n)
  case 0
  show ?case by simp
next
  case (Suc n)
  have "days_before_year (y + int n) \<le> days_before_year (y + int n + 1)"
    by (rule days_before_year_step)
  with Suc show ?case by (simp add: ac_simps)
qed

lemma days_before_year_mono: "y \<le> z \<Longrightarrow> days_before_year y \<le> days_before_year z"
  using days_before_year_mono_nat [of y "nat (z - y)"] by simp

lemma month_cases:
  "1 \<le> (m::int) \<Longrightarrow> m \<le> 12 \<Longrightarrow>
   m = 1 \<or> m = 2 \<or> m = 3 \<or> m = 4 \<or> m = 5 \<or> m = 6 \<or> m = 7 \<or> m = 8 \<or> m = 9 \<or> m = 10 \<or> m = 11 \<or> m = 12"
  by arith

lemma days_through_month:
  assumes "1 \<le> m" "m \<le> 12"
  shows "days_before_month y m + days_in_month y m \<le> 365 + (if is_leap y then 1 else 0)"
  using month_cases [OF assms]
  by (auto simp: days_before_month_def days_in_month_def DAYS_BEFORE_MONTH_def DAYS_IN_MONTH_def)

lemma days_before_month_nonneg:
  assumes "1 \<le> m" "m \<le> 12"
  shows "0 \<le> days_before_month y m"
  using month_cases [OF assms]
  by (auto simp: days_before_month_def DAYS_BEFORE_MONTH_def)

lemma toordinal_bounds:
  assumes "valid_date d"
  shows "0 < toordinal d" "toordinal d \<le> MAXORDINAL"
proof -
  from assms have y: "1 \<le> year d" "year d \<le> 9999" and m: "1 \<le> month d" "month d \<le> 12"
    and dd: "1 \<le> day d" "day d \<le> days_in_month (year d) (month d)"
    by (auto simp: valid_date_def)
  have a: "days_before_year 1 \<le> days_before_year (year d)"
    using y by (intro days_before_year_mono) simp
  have a0: "days_before_year 1 = 0" by (simp add: days_before_year_def)
  show "0 < toordinal d"
    using a a0 days_before_month_nonneg [OF m, of "year d"] dd
    by (simp add: toordinal_def ymd2ord_def)
  have b: "days_before_year (year d + 1) \<le> days_before_year 10000"
    using y by (intro days_before_year_mono) simp
  have b0: "days_before_year 10000 = 3652059" by (simp add: days_before_year_def)
  show "toordinal d \<le> MAXORDINAL"
    using b b0 days_before_next_year [of "year d"] days_through_month [OF m, of "year d"] dd
    by (simp add: toordinal_def ymd2ord_def MAXORDINAL_def split: if_splits)
qed

lemma weekend_shift_in_range:
  assumes "valid_date d" "weekday d \<ge> 5"
  shows "0 < toordinal d + (7 - weekday d)" "toordinal d + (7 - weekday d) \<le> MAXORDINAL"
proof -
  note b = toordinal_bounds [OF assms(1)]
  have w: "weekday d < 7" by (simp add: weekday_def)
  show "0 < toordinal d + (7 - weekday d)" using b w by simp
  show "toordinal d + (7 - weekday d) \<le> MAXORDINAL"
    using b assms(2) unfolding weekday_def MAXORDINAL_def by presburger
qed

text \<open>
  \<open>ord2ymd\<close> is the inverse of \<open>ymd2ord\<close>: the quotients by 146097, 36524, 1461 and 365
  days count the cycles of 400, 100, 4 and 1 years before the year of the date.
\<close>

lemma cycle_arith:
  fixes r400 n100 r100 n4 r4 n1 r1 :: int
  assumes "0 \<le> r400" "r400 < 146097" "r400 = 36524 * n100 + r100" "0 \<le> r100" "r100 < 36524"
    "r100 = 1461 * n4 + r4" "0 \<le> r4" "r4 < 1461" "r4 = 365 * n1 + r1" "0 \<le> r1" "r1 < 365"
  shows "0 \<le> n100" "n100 \<le> 4" "0 \<le> n4" "n4 \<le> 24" "0 \<le> n1" "n1 \<le> 4"
    "n100 = 4 \<Longrightarrow> n4 = 0" "n100 = 4 \<Longrightarrow> n1 = 0" "n100 = 4 \<Longrightarrow> r1 = 0"
    "n1 = 4 \<Longrightarrow> n4 \<le> 23" "n1 = 4 \<Longrightarrow> r1 = 0"
proof -
  show b: "0 \<le> n100" "n100 \<le> 4" "0 \<le> n4" "n4 \<le> 24" "0 \<le> n1" "n1 \<le> 4"
    using assms by linarith+
  show "n1 = 4 \<Longrightarrow> r1 = 0" using assms by linarith
  show "n1 = 4 \<Longrightarrow> n4 \<le> 23" using assms by linarith
  {
    assume h: "n100 = 4"
    with assms have r100: "r100 = 0" by linarith
    with assms b have r4: "r4 = 0" by linarith
    from r100 r4 assms show "n4 = 0" by linarith
    from r4 assms b have r1: "r1 = 0" by linarith
    then show "r1 = 0" .
    from r4 r1 assms show "n1 = 0" by linarith
  }
qed

text \<open>The days before the year that follows 400 a + 100 b + 4 c + d years.\<close>

lemma days_before_year_cycles:
  fixes a b c d :: int
  assumes "0 \<le> b" "b \<le> 3" "0 \<le> c" "c \<le> 24" "0 \<le> d" "d \<le> 3"
  shows "days_before_year (400 * a + 100 * b + 4 * c + d + 1)
    = 146097 * a + 36524 * b + 1461 * c + 365 * d"
proof -
  let ?p = "400 * a + 100 * b + 4 * c + d"
  have 4: "?p div 4 = 100 * a + 25 * b + c"
    by (rule int_div_pos_eq [where r = d]) (use assms in simp_all)
  have 100: "?p div 100 = 4 * a + b"
    by (rule int_div_pos_eq [where r = "4 * c + d"]) (use assms in simp_all)
  have 400: "?p div 400 = a"
    by (rule int_div_pos_eq [where r = "100 * b + 4 * c + d"]) (use assms in simp_all)
  show ?thesis
    by (simp add: days_before_year_def 4 100 400)
qed

lemma is_leap_cycles:
  fixes a b c d :: int
  assumes "0 \<le> b" "b \<le> 3" "0 \<le> c" "c \<le> 24" "0 \<le> d" "d \<le> 3"
  shows "is_leap (400 * a + 100 * b + 4 * c + d + 1) \<longleftrightarrow> d = 3 \<and> (c \<noteq> 24 \<or> b = 3)"
proof -
  let ?y = "400 * a + 100 * b + 4 * c + d + 1"
  have n: "days_before_year (?y + 1) = days_before_year ?y + 365 + (if is_leap ?y then 1 else 0)"
    by (rule days_before_next_year)
  have cur: "days_before_year ?y = 146097 * a + 36524 * b + 1461 * c + 365 * d"
    by (rule days_before_year_cycles [OF assms])
  consider (1) "d \<le> 2" | (2) "d = 3" "c \<le> 23" | (3) "d = 3" "c = 24" "b \<le> 2"
    | (4) "d = 3" "c = 24" "b = 3"
    using assms by linarith
  then show ?thesis
  proof cases
    case 1
    have "?y + 1 = 400 * a + 100 * b + 4 * c + (d + 1) + 1" by simp
    then have "days_before_year (?y + 1) = 146097 * a + 36524 * b + 1461 * c + 365 * (d + 1)"
      using days_before_year_cycles [of b c "d + 1" a] assms 1 by simp
    with n cur 1 show ?thesis by (simp split: if_splits)
  next
    case 2
    have "?y + 1 = 400 * a + 100 * b + 4 * (c + 1) + 0 + 1" using 2 by simp
    then have "days_before_year (?y + 1) = 146097 * a + 36524 * b + 1461 * (c + 1) + 365 * 0"
      using days_before_year_cycles [of b "c + 1" 0 a] assms 2 by simp
    with n cur 2 show ?thesis by (simp split: if_splits)
  next
    case 3
    have "?y + 1 = 400 * a + 100 * (b + 1) + 4 * 0 + 0 + 1" using 3 by simp
    then have "days_before_year (?y + 1) = 146097 * a + 36524 * (b + 1) + 1461 * 0 + 365 * 0"
      using days_before_year_cycles [of "b + 1" 0 0 a] assms 3 by simp
    with n cur 3 show ?thesis by (simp split: if_splits)
  next
    case 4
    have "?y + 1 = 400 * (a + 1) + 100 * 0 + 4 * 0 + 0 + 1" using 4 by simp
    then have "days_before_year (?y + 1) = 146097 * (a + 1) + 36524 * 0 + 1461 * 0 + 365 * 0"
      using days_before_year_cycles [of 0 0 0 "a + 1"] by simp
    with n cur 4 show ?thesis by (simp split: if_splits)
  qed
qed


lemma month_before:
  fixes n m :: int and L :: bool
  assumes "0 \<le> n" "n < 365" "m = (n + 50) div 32"
    "DAYS_BEFORE_MONTH ! nat m + (if m > 2 \<and> L then 1 else 0) > n"
  shows "DAYS_BEFORE_MONTH ! nat m + (if m > 2 \<and> L then 1 else 0)
      - (DAYS_IN_MONTH ! nat (m - 1) + (if m - 1 = 2 \<and> L then 1 else 0))
    = DAYS_BEFORE_MONTH ! nat (m - 1) + (if m - 1 > 2 \<and> L then 1 else 0)"
proof -
  define r where "r = (n + 50) mod 32"
  have e: "n + 50 = 32 * m + r" "0 \<le> r" "r < 32"
    by (simp_all add: r_def assms(3))
  with assms(1,2) have "1 \<le> m" "m \<le> 12" by linarith+
  then have "m = 1 \<or> m = 2 \<or> m = 3 \<or> m = 4 \<or> m = 5 \<or> m = 6 \<or> m = 7 \<or> m = 8 \<or> m = 9
      \<or> m = 10 \<or> m = 11 \<or> m = 12"
    by (rule month_cases)
  then show ?thesis
    using assms(1,4)
    by (elim disjE) (simp_all add: DAYS_BEFORE_MONTH_def DAYS_IN_MONTH_def)
qed

lemma toordinal_ord2ymd:
  assumes "1 \<le> n"
  shows "toordinal (ord2ymd n) = n"
proof -
  define a where "a = (n - 1) div 146097"
  define r400 where "r400 = (n - 1) mod 146097"
  define b where "b = r400 div 36524"
  define r100 where "r100 = r400 mod 36524"
  define c where "c = r100 div 1461"
  define r4 where "r4 = r100 mod 1461"
  define d where "d = r4 div 365"
  define r1 where "r1 = r4 mod 365"
  define y where "y = a * 400 + 1 + b * 100 + c * 4 + d"
  define L where "L = (d = 3 \<and> (c \<noteq> 24 \<or> b = 3))"
  define m where "m = (r1 + 50) div 32"
  define p where "p = DAYS_BEFORE_MONTH ! nat m + (if m > 2 \<and> L then 1 else 0)"
  have e: "n - 1 = 146097 * a + r400" "0 \<le> r400" "r400 < 146097"
      "r400 = 36524 * b + r100" "0 \<le> r100" "r100 < 36524"
      "r100 = 1461 * c + r4" "0 \<le> r4" "r4 < 1461"
      "r4 = 365 * d + r1" "0 \<le> r1" "r1 < 365"
    by (simp_all add: a_def r400_def b_def r100_def c_def r4_def d_def r1_def)
  note k = cycle_arith [OF e(2-12)]
  have total: "n = 146097 * a + 36524 * b + 1461 * c + 365 * d + r1 + 1"
    using e by linarith
  have o: "ord2ymd n =
      (if d = 4 \<or> b = 4 then \<lparr>year = y - 1, month = 12, day = 31\<rparr>
       else if p > r1
         then \<lparr>year = y, month = m - 1, day = r1 - (p - (DAYS_IN_MONTH ! nat (m - 1)
                 + (if m - 1 = 2 \<and> L then 1 else 0))) + 1\<rparr>
         else \<lparr>year = y, month = m, day = r1 - p + 1\<rparr>)"
    unfolding ord2ymd_def Let_def p_def m_def L_def y_def r1_def d_def r4_def c_def r100_def
      b_def r400_def a_def
    by (rule refl)
  show ?thesis
  proof (cases "d = 4 \<or> b = 4")
    case True
    then have o': "ord2ymd n = \<lparr>year = y - 1, month = 12, day = 31\<rparr>" by (simp add: o)
    from True consider (b4) "b = 4" | (d4) "d = 4" "b \<le> 3" using k(2) by linarith
    then show ?thesis
    proof cases
      case b4
      with k have z: "c = 0" "d = 0" "r1 = 0" by simp_all
      have y1: "y - 1 = 400 * a + 100 * 3 + 4 * 24 + 3 + 1" by (simp add: y_def b4 z)
      have "days_before_year (y - 1) = 146097 * a + 36524 * 3 + 1461 * 24 + 365 * 3"
        unfolding y1 by (rule days_before_year_cycles) simp_all
      moreover have "is_leap (y - 1)"
        unfolding y1 by (subst is_leap_cycles) simp_all
      ultimately have "days_before_year (y - 1) + days_before_month (y - 1) 12 + 31 = n"
        using total b4 z by (simp add: days_before_month_def DAYS_BEFORE_MONTH_def)
      then show ?thesis
        by (simp only: o' toordinal_def ymd2ord_def date.simps)
    next
      case d4
      with k have z: "c \<le> 23" "r1 = 0" by simp_all
      have y1: "y - 1 = 400 * a + 100 * b + 4 * c + 3 + 1" by (simp add: y_def d4)
      have "days_before_year (y - 1) = 146097 * a + 36524 * b + 1461 * c + 365 * 3"
        unfolding y1 by (rule days_before_year_cycles) (use k d4 z in simp_all)
      moreover have "is_leap (y - 1)"
        unfolding y1 by (subst is_leap_cycles) (use k d4 z in simp_all)
      ultimately have "days_before_year (y - 1) + days_before_month (y - 1) 12 + 31 = n"
        using total d4 z by (simp add: days_before_month_def DAYS_BEFORE_MONTH_def)
      then show ?thesis
        by (simp only: o' toordinal_def ymd2ord_def date.simps)
    qed
  next
    case False
    with k have bd: "b \<le> 3" "d \<le> 3" by linarith+
    have y1: "y = 400 * a + 100 * b + 4 * c + d + 1" by (simp add: y_def)
    have dy: "days_before_year y = 146097 * a + 36524 * b + 1461 * c + 365 * d"
      unfolding y1 by (rule days_before_year_cycles) (use k bd in simp_all)
    have ly: "is_leap y = L"
      unfolding y1 L_def by (rule is_leap_cycles) (use k bd in simp_all)
    show ?thesis
    proof (cases "p > r1")
      case True
      have "p - (DAYS_IN_MONTH ! nat (m - 1) + (if m - 1 = 2 \<and> L then 1 else 0))
          = days_before_month y (m - 1)"
        unfolding days_before_month_def ly p_def
        by (rule month_before [OF e(11,12) m_def]) (use True in \<open>simp add: p_def\<close>)
      with dy total have "days_before_year y + days_before_month y (m - 1)
          + (r1 - (p - (DAYS_IN_MONTH ! nat (m - 1) + (if m - 1 = 2 \<and> L then 1 else 0))) + 1) = n"
        by simp
      moreover from False True have "ord2ymd n = \<lparr>year = y, month = m - 1,
          day = r1 - (p - (DAYS_IN_MONTH ! nat (m - 1) + (if m - 1 = 2 \<and> L then 1 else 0))) + 1\<rparr>"
        by (simp only: o if_False if_True)
      ultimately show ?thesis
        by (simp only: toordinal_def ymd2ord_def date.simps)
    next
      case np: False
      have "p = days_before_month y m" by (simp add: p_def days_before_month_def ly)
      with dy total have "days_before_year y + days_before_month y m + (r1 - p + 1) = n"
        by simp
      moreover from False np have "ord2ymd n = \<lparr>year = y, month = m, day = r1 - p + 1\<rparr>"
        by (simp only: o if_False)
      ultimately show ?thesis
        by (simp only: toordinal_def ymd2ord_def date.simps)
    qed
  qed
qed

section \<open>Changing a phone\<close>

lemma change_from_found:
  assumes "phones r = pre @ old # post" "old \<notin> set pre" "i \<le> length pre"
  shows "change_phone_from i r old new =
    (case Phone new of Inl e \<Rightarrow> Inl e | Inr p \<Rightarrow> Inr (r\<lparr>phones := pre @ p # post\<rparr>))"
  using assms(3)
proof (induction "length pre - i" arbitrary: i)
  case 0
  then have i: "i = length pre" by simp
  show ?case
    by (subst change_phone_from.simps) (simp add: assms(1) i split: sum.splits)
next
  case (Suc n)
  then have lt: "i < length pre" by simp
  then have "pre ! i \<in> set pre" by simp
  with assms(2) have ne: "pre ! i \<noteq> old" by auto
  have "change_phone_from i r old new = change_phone_from (Suc i) r old new"
    using lt ne by (subst change_phone_from.simps) (simp add: assms(1) nth_append)
  also have "\<dots> = (case Phone new of Inl e \<Rightarrow> Inl e | Inr p \<Rightarrow> Inr (r\<lparr>phones := pre @ p # post\<rparr>))"
    using Suc lt by (intro Suc.hyps(1)) simp_all
  finally show ?case .
qed

lemma change_from_missing:
  assumes "old \<notin> set (drop i (phones r))"
  shows "change_phone_from i r old new = Inl (ValueError ''Old phone number not found.'')"
  using assms
proof (induction "length (phones r) - i" arbitrary: i)
  case 0
  then show ?case by (subst change_phone_from.simps) simp
next
  case (Suc n)
  then have lt: "i < length (phones r)" by simp
  then have "phones r ! i \<in> set (drop i (phones r))"
    by (metis Cons_nth_drop_Suc list.set_intros(1))
  with Suc.prems have ne: "phones r ! i \<noteq> old" by auto
  have sub: "set (drop (Suc i) (phones r)) \<subseteq> set (drop i (phones r))"
    by (metis drop_Suc set_drop_subset tl_drop drop_drop plus_1_eq_Suc set_drop_subset_set_drop le_add2 Suc_eq_plus1)
  have "change_phone_from i r old new = change_phone_from (Suc i) r old new"
    using lt ne by (subst change_phone_from.simps) simp
  also have "\<dots> = Inl (ValueError ''Old phone number not found.'')"
    using Suc sub by (intro Suc.hyps(1)) auto
  finally show ?case .
qed

text \<open>
  C4: \<open>change_phone\<close> replaces the first phone equal to \<open>old\<close> by the validated phone
  built from \<open>new\<close> and leaves the phones before and after it as they are (when \<open>new\<close>
  is not a valid phone it raises the error of \<open>Phone\<close>); when no phone equals \<open>old\<close> it
  raises the \<open>ValueError\<close> "Old phone number not found.".
\<close>

theorem change_phone_spec:
  "(old \<notin> set (phones r) \<longrightarrow>
      change_phone r old new = Inl (ValueError ''Old phone number not found.''))
   \<and> (\<forall>pre post. phones r = pre @ old # post \<and> old \<notin> set pre \<longrightarrow>
      change_phone r old new =
        (case Phone new of
           Inl e \<Rightarrow> Inl (ValueError ''Phone number must be 10 digits.'')
         | Inr p \<Rightarrow> Inr (r\<lparr>phones := pre @ new # post\<rparr>)))"
proof (intro conjI impI allI)
  assume "old \<notin> set (phones r)"
  then show "change_phone r old new = Inl (ValueError ''Old phone number not found.'')"
    unfolding change_phone_def by (intro change_from_missing) simp
next
  fix pre post
  assume a: "phones r = pre @ old # post \<and> old \<notin> set pre"
  have "change_phone r old new =
    (case Phone new of Inl e \<Rightarrow> Inl e | Inr p \<Rightarrow> Inr (r\<lparr>phones := pre @ p # post\<rparr>))"
    unfolding change_phone_def using a by (intro change_from_found) simp_all
  then show "change_phone r old new =
        (case Phone new of
           Inl e \<Rightarrow> Inl (ValueError ''Phone number must be 10 digits.'')
         | Inr p \<Rightarrow> Inr (r\<lparr>phones := pre @ new # post\<rparr>))"
    by (auto simp: Phone_def split: sum.splits if_splits)
qed

theorem change_phone_spec_witness:
  "change_phone \<lparr>name = ''John'', phones = [''1111111111''], birthday = None\<rparr>
     ''1111111111'' ''2222222222''
   = Inr \<lparr>name = ''John'', phones = [''2222222222''], birthday = None\<rparr>
   \<and> change_phone \<lparr>name = ''John'', phones = [''1111111111''], birthday = None\<rparr>
     ''3333333333'' ''2222222222''
   = Inl (ValueError ''Old phone number not found.'')"
proof -
  let ?r = "\<lparr>name = ''John'', phones = [''1111111111''], birthday = None\<rparr>"
  have p: "Phone ''2222222222'' = Inr ''2222222222''"
    by (simp add: Phone_def isdigit_def isdigit_char_def is_decimal_def ordc_def)
  have "phones ?r = [] @ ''1111111111'' # [] \<and> ''1111111111'' \<notin> set []" by simp
  then have "change_phone ?r ''1111111111'' ''2222222222'' =
        (case Phone ''2222222222'' of
           Inl e \<Rightarrow> Inl (ValueError ''Phone number must be 10 digits.'')
         | Inr p \<Rightarrow> Inr (?r\<lparr>phones := [] @ ''2222222222'' # []\<rparr>))"
    using change_phone_spec [of "''1111111111''" ?r "''2222222222''"] by blast
  then have a: "change_phone ?r ''1111111111'' ''2222222222''
      = Inr \<lparr>name = ''John'', phones = [''2222222222''], birthday = None\<rparr>"
    by (simp add: p)
  have "''3333333333'' \<notin> set (phones ?r)" by simp
  then have b: "change_phone ?r ''3333333333'' ''2222222222'' = Inl (ValueError ''Old phone number not found.'')"
    using change_phone_spec [of "''3333333333''" ?r "''2222222222''"] by blast
  from a b show ?thesis by simp
qed

section \<open>Unknown commands\<close>

text \<open>
  C8: a line whose first token, in lower case, is none of the ten command words leaves the
  book as it is and prints exactly "Unknown command. Try again.".
\<close>

theorem unknown_command_frame:
  assumes "split (strip line) = c # args"
    and "lower c \<notin> set [''hello'', ''add'', ''change'', ''phone'', ''all'', ''add-birthday'',
           ''show-birthday'', ''birthdays'', ''close'', ''exit'']"
  shows "step today line book = Continue [''Unknown command. Try again.''] book"
  using assms by (simp add: step_def commands_def Let_def)

theorem unknown_command_frame_witness:
  "step \<lparr>year = 2024, month = 6, day = 10\<rparr> ''Foo bar''
     [(''John'', \<lparr>name = ''John'', phones = [''1111111111''], birthday = None\<rparr>)]
   = Continue [''Unknown command. Try again.'']
     [(''John'', \<lparr>name = ''John'', phones = [''1111111111''], birthday = None\<rparr>)]"
proof -
  have a: "split (strip ''Foo bar'') = ''Foo'' # [''bar'']"
    by code_simp
  have b: "lower ''Foo'' \<notin> set [''hello'', ''add'', ''change'', ''phone'', ''all'', ''add-birthday'',
           ''show-birthday'', ''birthdays'', ''close'', ''exit'']"
    by code_simp
  show ?thesis
    by (rule unknown_command_frame [OF a b])
qed

section \<open>A refused phone leaves the book alone\<close>

text \<open>
  C9: when \<open>add\<close> is called with a name that is not in the book and a phone that \<open>Phone\<close>
  refuses, the result is the error line and the book is the one before the call: no record
  has been stored for the name.
\<close>

theorem add_contact_invalid_phone_frame:
  assumes "book_get book n = None" and "isl (Phone phone)"
  shows "add_contact ([n, phone], book) = (Inr ''Error: Phone number must be 10 digits.'', book)"
  using assms
  by (auto simp: add_contact_def input_error_def add_contact_func_def add_phone_def Phone_def
      split: sum.splits if_splits)

theorem add_contact_invalid_phone_frame_witness:
  "add_contact ([''Ann'', ''123''], [(''John'', Record_init ''John'')])
   = (Inr ''Error: Phone number must be 10 digits.'', [(''John'', Record_init ''John'')])"
proof -
  have a: "book_get [(''John'', Record_init ''John'')] ''Ann'' = None"
    by (simp add: book_get_def)
  have b: "isl (Phone ''123'')"
    by (simp add: Phone_def)
  show ?thesis
    by (rule add_contact_invalid_phone_frame [OF a b])
qed

section \<open>Upcoming birthdays\<close>

lemma mk_date_valid: "mk_date y m d = Inr x \<Longrightarrow> valid_date x \<and> year x = y \<and> month x = m \<and> day x = d"
  by (auto simp: mk_date_def valid_date_def split: if_splits)


lemma mk_date_error: "mk_date y m d = Inl e \<Longrightarrow> \<exists>msg. e = ValueError msg"
  by (auto simp: mk_date_def split: if_splits)

lemma add_days_weekend:
  assumes "valid_date d" "weekday d \<ge> 5"
  shows "add_days d (7 - weekday d) = Inr (ord2ymd (toordinal d + (7 - weekday d)))"
  using weekend_shift_in_range [OF assms] by (simp add: add_days_def Let_def)

text \<open>The congratulation for a Saturday is 2 days later, for a Sunday 1 day later, and it
  falls on a Monday.\<close>

lemma weekday_congrats:
  assumes "valid_date d" "weekday d \<ge> 5"
  shows "toordinal (congrats d) = toordinal d + (7 - weekday d)" "weekday (congrats d) = 0"
proof -
  from weekend_shift_in_range [OF assms] have "1 \<le> toordinal d + (7 - weekday d)" by simp
  from toordinal_ord2ymd [OF this] assms(2)
  show t: "toordinal (congrats d) = toordinal d + (7 - weekday d)"
    by (simp add: congrats_def)
  have "(toordinal d + (7 - (toordinal d + 6) mod 7) + 6) mod 7 = 0"
    by presburger
  then show "weekday (congrats d) = 0"
    unfolding weekday_def t by (simp add: weekday_def)
qed

lemma congrats_weekend:
  assumes "valid_date d"
  shows "weekday d = 5 \<Longrightarrow> toordinal (congrats d) = toordinal d + 2 \<and> weekday (congrats d) = 0"
    and "weekday d = 6 \<Longrightarrow> toordinal (congrats d) = toordinal d + 1 \<and> weekday (congrats d) = 0"
    and "weekday d < 5 \<Longrightarrow> congrats d = d"
  using weekday_congrats [OF assms] by (simp_all add: congrats_def)

lemma upcoming_entry_this_year:
  assumes "birthday r = Some b" "strptime_dmY b = Inr bday"
    "replace_year bday (year today) = Inr occ" "\<not> date_less occ today"
  shows "upcoming_entry today r =
    (if days_between occ today \<le> 7 then Inr [(name r, strftime_dmY (congrats occ))] else Inr [])"
proof -
  have v: "valid_date occ" using assms(3) mk_date_valid by (auto simp: replace_year_def)
  show ?thesis
    using assms add_days_weekend [OF v]
    by (simp add: upcoming_entry_def Let_def congrats_def)
qed

lemma upcoming_entry_next_year:
  assumes "birthday r = Some b" "strptime_dmY b = Inr bday"
    "replace_year bday (year today) = Inr occ" "date_less occ today"
    "replace_year occ (year today + 1) = Inr occ'"
  shows "upcoming_entry today r =
    (if days_between occ' today \<le> 7 then Inr [(name r, strftime_dmY (congrats occ'))] else Inr [])"
proof -
  have v: "valid_date occ'" using assms(5) mk_date_valid by (auto simp: replace_year_def)
  show ?thesis
    using assms add_days_weekend [OF v]
    by (simp add: upcoming_entry_def Let_def congrats_def)
qed




text \<open>The two examples of the specification, with today = 10.06.2024, a Monday.\<close>

lemma upcoming_saturday_example:
  "weekday \<lparr>year = 2024, month = 6, day = 10\<rparr> = 0
   \<and> weekday \<lparr>year = 2024, month = 6, day = 15\<rparr> = 5
   \<and> get_upcoming_birthdays \<lparr>year = 2024, month = 6, day = 10\<rparr>
        [(''Ann'', \<lparr>name = ''Ann'', phones = [], birthday = Some ''15.06.1990''\<rparr>)]
      = Inr [(''Ann'', ''17.06.2024'')]"
  by code_simp

lemma upcoming_far_example:
  "get_upcoming_birthdays \<lparr>year = 2024, month = 6, day = 10\<rparr>
     [(''Ann'', \<lparr>name = ''Ann'', phones = [], birthday = Some ''01.01.1990''\<rparr>)]
   = Inr []"
  by code_simp

text \<open>
  C1, at an input where the code fails it: with today = 10.06.2024, the book made by
  the commands \<open>add-birthday Ann 15.06.1990\<close> and \<open>add-birthday Bob 29.02.2000\<close> holds a
  birthday on the 29th of February, which \<open>Birthday\<close> accepts. This year's occurrence has
  passed, and \<open>replace\<close> with the next year, which has no such day, raises \<open>ValueError\<close>:
  \<open>get_upcoming_birthdays\<close> returns no list at all, neither Ann's congratulation on
  17.06.2024 nor anything else, and the command \<open>birthdays\<close> prints the error line.
\<close>

theorem upcoming_leap_day_raises:
  "reachable [(''Ann'', \<lparr>name = ''Ann'', phones = [], birthday = Some ''15.06.1990''\<rparr>),
              (''Bob'', \<lparr>name = ''Bob'', phones = [], birthday = Some ''29.02.2000''\<rparr>)]
   \<and> get_upcoming_birthdays \<lparr>year = 2024, month = 6, day = 10\<rparr>
        [(''Ann'', \<lparr>name = ''Ann'', phones = [], birthday = Some ''15.06.1990''\<rparr>),
         (''Bob'', \<lparr>name = ''Bob'', phones = [], birthday = Some ''29.02.2000''\<rparr>)]
      = Inl (ValueError ''day is out of range for month'')
   \<and> step \<lparr>year = 2024, month = 6, day = 10\<rparr> ''birthdays''
        [(''Ann'', \<lparr>name = ''Ann'', phones = [], birthday = Some ''15.06.1990''\<rparr>),
         (''Bob'', \<lparr>name = ''Bob'', phones = [], birthday = Some ''29.02.2000''\<rparr>)]
      = Continue [''Error: day is out of range for month'']
        [(''Ann'', \<lparr>name = ''Ann'', phones = [], birthday = Some ''15.06.1990''\<rparr>),
         (''Bob'', \<lparr>name = ''Bob'', phones = [], birthday = Some ''29.02.2000''\<rparr>)]"
proof -
  let ?today = "\<lparr>year = 2024, month = 6, day = 10\<rparr>"
  let ?ann = "\<lparr>name = ''Ann'', phones = [], birthday = Some ''15.06.1990''\<rparr>"
  let ?bob = "\<lparr>name = ''Bob'', phones = [], birthday = Some ''29.02.2000''\<rparr>"
  have s1: "step ?today ''add-birthday Ann 15.06.1990'' []
      = Continue [''Birthday added for Ann.''] [(''Ann'', ?ann)]"
    by code_simp
  have s2: "step ?today ''add-birthday Bob 29.02.2000'' [(''Ann'', ?ann)]
      = Continue [''Birthday added for Bob.''] [(''Ann'', ?ann), (''Bob'', ?bob)]"
    by code_simp
  have r: "reachable [(''Ann'', ?ann), (''Bob'', ?bob)]"
    by (rule reachable.turn [OF reachable.turn [OF reachable.start s1] s2])
  have g: "get_upcoming_birthdays ?today [(''Ann'', ?ann), (''Bob'', ?bob)]
      = Inl (ValueError ''day is out of range for month'')"
    by code_simp
  have s3: "step ?today ''birthdays'' [(''Ann'', ?ann), (''Bob'', ?bob)]
      = Continue [''Error: day is out of range for month''] [(''Ann'', ?ann), (''Bob'', ?bob)]"
    by code_simp
  from r g s3 show ?thesis by (intro conjI)
qed

section \<open>A birthday that falls on today\<close>



section \<open>Birthday validation\<close>
































lemma strptime_error: "strptime_dmY v = Inl e \<Longrightarrow> \<exists>m. e = ValueError m"
  by (auto simp: strptime_dmY_def split: list.splits if_splits dest: mk_date_error)



lemma Birthday_accepts_iff: "Birthday v = Inr w \<longleftrightarrow> w = v \<and> (\<exists>x. strptime_dmY v = Inr x)"
  by (auto simp: Birthday_def split: sum.splits py_exc.splits)

lemma Birthday_error:
  "isl (Birthday v) \<Longrightarrow> Birthday v = Inl (ValueError ''Birthday must be in DD.MM.YYYY format.'')"
  by (auto simp: Birthday_def split: sum.splits py_exc.splits dest: strptime_error)





section \<open>The invariant of the book\<close>

lemma Phone_ok: "Phone p = Inr q \<Longrightarrow> phone_ok q"
  by (simp add: Phone_accepts_iff phone_ok_def)

lemma add_phone_inv:
  "add_phone r p = Inr r' \<Longrightarrow> record_inv r \<Longrightarrow> record_inv r' \<and> name r' = name r"
  by (auto simp: add_phone_def record_inv_def split: sum.splits dest: Phone_ok)

lemma change_phone_from_result:
  "change_phone_from i r old new = Inr r' \<Longrightarrow>
     \<exists>j q. Phone new = Inr q \<and> r' = r\<lparr>phones := (phones r)[j := q]\<rparr>"
proof (induction i r old new rule: change_phone_from.induct)
  case (1 i r old new)
  show ?case
  proof (cases "i < length (phones r) \<and> phones r ! i \<noteq> old")
    case True
    with "1.prems" have "change_phone_from (Suc i) r old new = Inr r'"
      by (subst (asm) change_phone_from.simps) simp
    with True "1.IH" show ?thesis by blast
  next
    case False
    with "1.prems" show ?thesis
      by (subst (asm) change_phone_from.simps) (auto split: if_splits sum.splits)
  qed
qed

lemma change_phone_from_error:
  "change_phone_from i r old new = Inl e \<Longrightarrow>
     e = ValueError ''Old phone number not found.'' \<or> e = ValueError ''Phone number must be 10 digits.''"
proof (induction i r old new rule: change_phone_from.induct)
  case (1 i r old new)
  show ?case
  proof (cases "i < length (phones r) \<and> phones r ! i \<noteq> old")
    case True
    with "1.prems" have "change_phone_from (Suc i) r old new = Inl e"
      by (subst (asm) change_phone_from.simps) simp
    with True "1.IH" show ?thesis by blast
  next
    case False
    with "1.prems" show ?thesis
      by (subst (asm) change_phone_from.simps) (auto simp: Phone_def split: if_splits sum.splits)
  qed
qed

lemma list_all_update: "list_all P xs \<Longrightarrow> P q \<Longrightarrow> list_all P (xs[j := q])"
  using set_update_subset_insert [of xs j q] by (auto simp: list_all_iff)

lemma change_phone_inv:
  assumes "change_phone r old new = Inr r'" "record_inv r"
  shows "record_inv r' \<and> name r' = name r"
proof -
  from assms(1) obtain j q where q: "Phone new = Inr q" and r': "r' = r\<lparr>phones := (phones r)[j := q]\<rparr>"
    unfolding change_phone_def using change_phone_from_result by blast
  from assms(2) Phone_ok [OF q] show ?thesis
    by (simp add: r' record_inv_def list_all_update)
qed

lemma add_birthday_inv:
  "add_birthday r b = Inr r' \<Longrightarrow> record_inv r \<Longrightarrow> record_inv r' \<and> name r' = name r"
  by (auto simp: add_birthday_def record_inv_def birthday_ok_def Birthday_accepts_iff split: sum.splits)

lemma Record_init_inv: "record_inv (Record_init n) \<and> name (Record_init n) = n"
  by (simp add: Record_init_def record_inv_def)

lemma list_all_alist_update:
  "list_all P al \<Longrightarrow> P (k, v) \<Longrightarrow> list_all P (AList.update k v al)"
  by (induction al) auto

lemma book_set_inv:
  "book_inv book \<Longrightarrow> record_inv r \<Longrightarrow> name r = k \<Longrightarrow> book_inv (book_set book k r)"
  by (simp add: book_inv_def book_set_def distinct_update list_all_alist_update)

lemma add_record_inv: "book_inv book \<Longrightarrow> record_inv r \<Longrightarrow> book_inv (add_record book r)"
  by (simp add: add_record_def book_set_inv)

lemma book_get_inv: "book_inv book \<Longrightarrow> book_get book k = Some r \<Longrightarrow> record_inv r \<and> name r = k"
  by (auto simp: book_inv_def book_get_def list_all_iff dest!: map_of_SomeD)

lemma input_error_book: "snd (input_error func a) = snd (func a)"
  by (auto simp: input_error_def split: prod.splits sum.splits)

lemma length_two: "length (xs :: 'a list) = 2 \<Longrightarrow> \<exists>a b. xs = [a, b]"
  by (auto simp: length_Suc_conv numeral_2_eq_2)

lemma length_three: "length (xs :: 'a list) = 3 \<Longrightarrow> \<exists>a b c. xs = [a, b, c]"
  by (auto simp: length_Suc_conv numeral_3_eq_3)

lemma add_contact_func_arity:
  "length args \<noteq> 2 \<Longrightarrow> add_contact_func (args, book) = (Inl (unpack_error 2 (length args)), book)"
  by (auto simp: add_contact_func_def split: list.splits)

lemma change_contact_func_arity:
  "length args \<noteq> 3 \<Longrightarrow>
     change_contact_func (args, book) = (Inl (unpack_error 3 (length args)), book)"
  by (auto simp: change_contact_func_def split: list.splits)

lemma add_birthday_handler_func_arity:
  "length args \<noteq> 2 \<Longrightarrow>
     add_birthday_handler_func (args, book) = (Inl (unpack_error 2 (length args)), book)"
  by (auto simp: add_birthday_handler_func_def split: list.splits)

lemma add_contact_func_inv:
  assumes "book_inv book"
  shows "book_inv (snd (add_contact_func (args, book)))"
proof (cases "length args = 2")
  case False
  then show ?thesis using assms by (simp add: add_contact_func_arity)
next
  case True
  then obtain n p where a: "args = [n, p]" using length_two by blast
  show ?thesis
  proof (cases "book_get book n")
    case None
    show ?thesis
    proof (cases "add_phone (Record_init n) p")
      case (Inl e)
      with None show ?thesis using assms by (simp add: a add_contact_func_def)
    next
      case (Inr r)
      from add_phone_inv [OF Inr] Record_init_inv have "record_inv r" by blast
      with None Inr show ?thesis using assms by (simp add: a add_contact_func_def add_record_inv)
    qed
  next
    case (Some rec)
    from book_get_inv [OF assms Some] have ri: "record_inv rec" "name rec = n" by simp_all
    show ?thesis
    proof (cases "add_phone rec p")
      case (Inl e)
      with Some show ?thesis using assms by (simp add: a add_contact_func_def)
    next
      case (Inr r)
      from add_phone_inv [OF Inr ri(1)] ri(2) have "record_inv r" "name r = n" by simp_all
      with Some Inr show ?thesis using assms by (simp add: a add_contact_func_def book_set_inv)
    qed
  qed
qed

lemma change_contact_func_inv:
  assumes "book_inv book"
  shows "book_inv (snd (change_contact_func (args, book)))"
proof (cases "length args = 3")
  case False
  then show ?thesis using assms by (simp add: change_contact_func_arity)
next
  case True
  then obtain n old new where a: "args = [n, old, new]" using length_three by blast
  show ?thesis
  proof (cases "book_get book n")
    case None
    then show ?thesis using assms by (simp add: a change_contact_func_def)
  next
    case (Some rec)
    from book_get_inv [OF assms Some] have ri: "record_inv rec" "name rec = n" by simp_all
    show ?thesis
    proof (cases "change_phone rec old new")
      case (Inl e)
      with Some show ?thesis using assms by (simp add: a change_contact_func_def)
    next
      case (Inr r)
      from change_phone_inv [OF Inr ri(1)] ri(2) have "record_inv r" "name r = n" by simp_all
      with Some Inr show ?thesis using assms by (simp add: a change_contact_func_def book_set_inv)
    qed
  qed
qed

lemma add_birthday_handler_func_inv:
  assumes "book_inv book"
  shows "book_inv (snd (add_birthday_handler_func (args, book)))"
proof (cases "length args = 2")
  case False
  then show ?thesis using assms by (simp add: add_birthday_handler_func_arity)
next
  case True
  then obtain n b where a: "args = [n, b]" using length_two by blast
  show ?thesis
  proof (cases "book_get book n")
    case None
    have b1: "book_inv (add_record book (Record_init n))"
      using assms Record_init_inv by (simp add: add_record_inv)
    show ?thesis
    proof (cases "add_birthday (Record_init n) b")
      case (Inl e)
      with None b1 show ?thesis by (simp add: a add_birthday_handler_func_def)
    next
      case (Inr r)
      from add_birthday_inv [OF Inr] Record_init_inv have "record_inv r" "name r = n" by simp_all
      with None Inr b1 show ?thesis by (simp add: a add_birthday_handler_func_def book_set_inv)
    qed
  next
    case (Some rec)
    from book_get_inv [OF assms Some] have ri: "record_inv rec" "name rec = n" by simp_all
    show ?thesis
    proof (cases "add_birthday rec b")
      case (Inl e)
      with Some show ?thesis using assms by (simp add: a add_birthday_handler_func_def)
    next
      case (Inr r)
      from add_birthday_inv [OF Inr ri(1)] ri(2) have "record_inv r" "name r = n" by simp_all
      with Some Inr show ?thesis
        using assms by (simp add: a add_birthday_handler_func_def book_set_inv)
    qed
  qed
qed

lemma show_phone_func_book: "snd (show_phone_func (args, book)) = book"
  by (auto simp: show_phone_func_def split: list.splits option.splits)

lemma show_birthday_func_book: "snd (show_birthday_func (args, book)) = book"
  by (auto simp: show_birthday_func_def split: list.splits option.splits)

lemma show_all_func_book: "snd (show_all_func book) = book"
  by (simp add: show_all_func_def)

lemma upcoming_birthdays_func_book: "snd (upcoming_birthdays_func today book) = book"
  by (auto simp: upcoming_birthdays_func_def split: sum.splits)

lemma call_handler_inv:
  assumes "book_inv book"
  shows "book_inv (snd (call_handler today command args book))"
  using assms
  by (simp add: call_handler_def add_contact_def change_contact_def show_phone_def show_all_def
      add_birthday_handler_def show_birthday_def upcoming_birthdays_def input_error_book
      add_contact_func_inv change_contact_func_inv add_birthday_handler_func_inv
      show_phone_func_book show_birthday_func_book show_all_func_book
      upcoming_birthdays_func_book)

lemma step_inv:
  assumes "book_inv book" "step today line book = Continue out book'"
  shows "book_inv book'"
proof (cases "split (strip line)")
  case Nil
  with assms show ?thesis by (simp add: step_def)
next
  case (Cons c args)
  show ?thesis
  proof (cases "lower c \<in> set commands \<and> lower c \<notin> set [''close'', ''exit''] \<and> lower c \<noteq> ''hello''")
    case False
    with assms Cons show ?thesis by (auto simp: step_def Let_def split: if_splits)
  next
    case True
    with assms(2) Cons have "book' = snd (call_handler today (lower c) args book)"
      by (auto simp: step_def Let_def split: prod.splits sum.splits if_splits)
    with call_handler_inv [OF assms(1)] show ?thesis by simp
  qed
qed

lemma reachable_book_inv: "reachable book \<Longrightarrow> book_inv book"
proof (induction rule: reachable.induct)
  case start
  show ?case by (simp add: book_inv_def)
next
  case (turn book today line out book')
  from step_inv [OF turn.IH turn.hyps(2)] show ?case .
qed

text \<open>
  C5, amended: every book that the program reaches has no key twice, stores every record
  under its own name, and holds only phones and birthdays that meet the constraints that
  \<open>Phone\<close> and \<open>Birthday\<close> enforce (ten characters that \<open>str.isdigit\<close> accepts; a string
  that \<open>strptime\<close> parses). \<open>add_phone\<close>, \<open>change_phone\<close> and \<open>add_birthday\<close> keep the
  invariant of the record and its name, and \<open>add_record\<close> of such a record keeps the
  invariant of the book.
\<close>

theorem reachable_invariant:
  "(reachable book \<longrightarrow> book_inv book)
   \<and> (record_inv r \<longrightarrow>
        (\<forall>r'. add_phone r p = Inr r' \<longrightarrow> record_inv r' \<and> name r' = name r)
      \<and> (\<forall>r'. change_phone r old new = Inr r' \<longrightarrow> record_inv r' \<and> name r' = name r)
      \<and> (\<forall>r'. add_birthday r b = Inr r' \<longrightarrow> record_inv r' \<and> name r' = name r))
   \<and> (book_inv book \<and> record_inv r \<longrightarrow> book_inv (add_record book r))"
proof -
  have a: "reachable book \<longrightarrow> book_inv book"
    by (simp add: reachable_book_inv)
  have b: "record_inv r \<longrightarrow>
        (\<forall>r'. add_phone r p = Inr r' \<longrightarrow> record_inv r' \<and> name r' = name r)
      \<and> (\<forall>r'. change_phone r old new = Inr r' \<longrightarrow> record_inv r' \<and> name r' = name r)
      \<and> (\<forall>r'. add_birthday r b = Inr r' \<longrightarrow> record_inv r' \<and> name r' = name r)"
    using add_phone_inv change_phone_inv add_birthday_inv by blast
  have c: "book_inv book \<and> record_inv r \<longrightarrow> book_inv (add_record book r)"
    by (simp add: add_record_inv)
  show ?thesis by (intro conjI) (rule a, rule b, rule c)
qed

theorem reachable_invariant_witness:
  "reachable [(''John'', \<lparr>name = ''John'', phones = [''1111111111''], birthday = None\<rparr>)]
   \<and> book_inv [(''John'', \<lparr>name = ''John'', phones = [''1111111111''], birthday = None\<rparr>)]
   \<and> book_inv (add_record
        [(''John'', \<lparr>name = ''John'', phones = [''1111111111''], birthday = None\<rparr>)]
        (Record_init ''John''))
   \<and> record_inv \<lparr>name = ''John'', phones = [''2222222222''], birthday = Some ''25.12.1990''\<rparr>"
proof -
  let ?b = "[(''John'', \<lparr>name = ''John'', phones = [''1111111111''], birthday = None\<rparr>)]"
  let ?r0 = "Record_init ''John''"
  let ?r1 = "\<lparr>name = ''John'', phones = [''1111111111''], birthday = None\<rparr>"
  let ?r2 = "\<lparr>name = ''John'', phones = [''2222222222''], birthday = None\<rparr>"
  let ?r3 = "\<lparr>name = ''John'', phones = [''2222222222''], birthday = Some ''25.12.1990''\<rparr>"
  have s: "step \<lparr>year = 2024, month = 6, day = 10\<rparr> ''add John 1111111111'' []
      = Continue [''Contact John updated.''] ?b"
    by code_simp
  have r: "reachable ?b"
    by (rule reachable.turn [OF reachable.start s])
  have i: "book_inv ?b"
    using reachable_invariant [of ?b] r by blast
  have n: "record_inv ?r0"
    by (simp add: Record_init_def record_inv_def)
  have a: "book_inv (add_record ?b ?r0)"
    using reachable_invariant [of ?b ?r0] i n by blast
  have o1: "add_phone ?r0 ''1111111111'' = Inr ?r1" by code_simp
  have o2: "change_phone ?r1 ''1111111111'' ''2222222222'' = Inr ?r2" by code_simp
  have o3: "add_birthday ?r2 ''25.12.1990'' = Inr ?r3" by code_simp
  have n1: "record_inv ?r1"
    using reachable_invariant [of _ ?r0 "''1111111111''"] n o1 by blast
  have n2: "record_inv ?r2"
    using reachable_invariant [of _ ?r1 _ "''1111111111''" "''2222222222''"] n1 o2 by blast
  have n3: "record_inv ?r3"
    using reachable_invariant [of _ ?r2 _ _ _ "''25.12.1990''"] n2 o3 by blast
  from r i a n3 show ?thesis by (intro conjI)
qed

text \<open>
  C5, as stated, at a concrete state: after the command \<open>add John\<close> with a phone of ten
  superscript twos, which \<open>Phone\<close> accepts, the book holds a phone that is not ten
  decimal digits.
\<close>

theorem reachable_counterexample:
  "reachable [(''John'', \<lparr>name = ''John'',
       phones = [[CHR 0xB2, CHR 0xB2, CHR 0xB2, CHR 0xB2, CHR 0xB2,
                  CHR 0xB2, CHR 0xB2, CHR 0xB2, CHR 0xB2, CHR 0xB2]], birthday = None\<rparr>)]
   \<and> \<not> spec_book_inv [(''John'', \<lparr>name = ''John'',
       phones = [[CHR 0xB2, CHR 0xB2, CHR 0xB2, CHR 0xB2, CHR 0xB2,
                  CHR 0xB2, CHR 0xB2, CHR 0xB2, CHR 0xB2, CHR 0xB2]], birthday = None\<rparr>)]"
proof -
  let ?p = "[CHR 0xB2, CHR 0xB2, CHR 0xB2, CHR 0xB2, CHR 0xB2,
             CHR 0xB2, CHR 0xB2, CHR 0xB2, CHR 0xB2, CHR 0xB2]"
  let ?b = "[(''John'', \<lparr>name = ''John'', phones = [?p], birthday = None\<rparr>)]"
  have s: "step \<lparr>year = 2024, month = 6, day = 10\<rparr> (''add John '' @ ?p) []
      = Continue [''Contact John updated.''] ?b"
    by code_simp
  have r: "reachable ?b"
    by (rule reachable.turn [OF reachable.start s])
  have n: "\<not> spec_book_inv ?b"
    by (simp add: spec_book_inv_def ten_decimal_digits_def is_decimal_def ordc_def)
  from r n show ?thesis by (intro conjI)
qed

section \<open>Errors at the boundary of a handler\<close>

lemma digit_char_not_newline: "d < 10 \<Longrightarrow> digit_char d \<noteq> CHR 0x0A"
proof
  assume d: "d < 10" and "digit_char d = CHR 0x0A"
  then have "ordc (digit_char d) = ordc (CHR 0x0A)" by simp
  then have "(48 + d) mod 256 = 10" by (simp add: ordc_def digit_char_def)
  with d show False by simp
qed

lemma str_nat_one_line: "one_line (str_nat n)"
proof (induction n rule: str_nat.induct)
  case (1 n)
  show ?case
  proof (cases "n < 10")
    case True
    then show ?thesis
      by (subst str_nat.simps) (simp add: one_line_def digit_char_not_newline [symmetric])
  next
    case False
    have "n mod 10 < 10" by simp
    from digit_char_not_newline [OF this] "1.IH" [OF False] False show ?thesis
      by (subst str_nat.simps) (auto simp: one_line_def)
  qed
qed

lemma str_int_one_line: "one_line (str_int i)"
  using str_nat_one_line by (simp add: str_int_def one_line_def)

lemma unpack_error_line: "caught (unpack_error n got) \<and> one_line (exc_str (unpack_error n got))"
  using str_nat_one_line by (simp add: unpack_error_def one_line_def)

lemma none_has_no_line: "one_line attr \<Longrightarrow> caught (none_has_no attr) \<and> one_line (exc_str (none_has_no attr))"
  by (simp add: none_has_no_def one_line_def)

lemma mk_date_error_line: "mk_date y m d = Inl e \<Longrightarrow> caught e \<and> one_line (exc_str e)"
  using str_int_one_line [of y] by (auto simp: mk_date_def one_line_def split: if_splits)

lemma upcoming_entry_raises:
  assumes "upcoming_entry today r = Inl e"
  shows "caught e \<and> (record_inv r \<longrightarrow> one_line (exc_str e))"
proof (cases "birthday r")
  case None
  with assms show ?thesis by (simp add: upcoming_entry_def)
next
  case (Some b)
  show ?thesis
  proof (cases "strptime_dmY b")
    case (Inl e')
    with Some assms have e: "e = e'" by (simp add: upcoming_entry_def)
    from strptime_error [OF Inl] e have "caught e" by auto
    moreover from Some Inl have "\<not> record_inv r" by (simp add: record_inv_def birthday_ok_def)
    ultimately show ?thesis by simp
  next
    case (Inr bday)
    show ?thesis
    proof (cases "replace_year bday (year today)")
      case (Inl e1)
      with Some Inr assms have "e = e1" by (simp add: upcoming_entry_def)
      with Inl mk_date_error_line show ?thesis by (simp add: replace_year_def)
    next
      case occ: (Inr occ)
      show ?thesis
      proof (cases "date_less occ today")
        case False
        from upcoming_entry_this_year [OF Some Inr occ False] assms show ?thesis
          by (simp split: if_splits)
      next
        case True
        show ?thesis
        proof (cases "replace_year occ (year today + 1)")
          case (Inl e2)
          with Some Inr occ True assms have "e = e2" by (simp add: upcoming_entry_def)
          with Inl mk_date_error_line show ?thesis by (simp add: replace_year_def)
        next
          case occ': (Inr occ')
          from upcoming_entry_next_year [OF Some Inr occ True occ'] assms show ?thesis
            by (simp split: if_splits)
        qed
      qed
    qed
  qed
qed

lemma upcoming_loop_raises:
  "upcoming_loop today rs acc = Inl e \<Longrightarrow> \<exists>r\<in>set rs. upcoming_entry today r = Inl e"
proof (induction rs arbitrary: acc)
  case Nil
  then show ?case by simp
next
  case (Cons x xs)
  show ?case
  proof (cases "upcoming_entry today x")
    case (Inl e')
    with Cons.prems show ?thesis by simp
  next
    case (Inr new)
    with Cons.prems have "upcoming_loop today xs (acc @ new) = Inl e" by simp
    from Cons.IH [OF this] show ?thesis by simp
  qed
qed

lemma book_values_inv: "book_inv book \<Longrightarrow> r \<in> set (book_values book) \<Longrightarrow> record_inv r"
  by (auto simp: book_inv_def book_values_def list_all_iff)

lemma upcoming_birthdays_func_raises:
  assumes "upcoming_birthdays_func today book = (Inl e, b)"
  shows "caught e \<and> (book_inv book \<longrightarrow> one_line (exc_str e))"
proof -
  from assms have "get_upcoming_birthdays today book = Inl e"
    by (auto simp: upcoming_birthdays_func_def split: sum.splits if_splits)
  then obtain r where r: "r \<in> set (book_values book)" and e: "upcoming_entry today r = Inl e"
    unfolding get_upcoming_birthdays_def using upcoming_loop_raises by blast
  from upcoming_entry_raises [OF e] book_values_inv [OF _ r] show ?thesis by blast
qed


lemma Phone_error_line:
  "Phone p = Inl e \<Longrightarrow> caught e \<and> one_line (exc_str e)"
  by (auto simp: Phone_def one_line_def split: if_splits)

lemma Birthday_error_line:
  "Birthday b = Inl e \<Longrightarrow> caught e \<and> one_line (exc_str e)"
  using Birthday_error [of b] by (auto simp: one_line_def)

lemma change_phone_error_line:
  "change_phone r old new = Inl e \<Longrightarrow> caught e \<and> one_line (exc_str e)"
  unfolding change_phone_def using change_phone_from_error [of 0 r old new e]
  by (auto simp: one_line_def)

lemma add_contact_func_raises:
  assumes "add_contact_func (args, book) = (Inl e, b)"
  shows "caught e \<and> one_line (exc_str e)"
proof (cases "length args = 2")
  case False
  with assms unpack_error_line show ?thesis by (auto simp: add_contact_func_arity)
next
  case True
  then obtain n p where a: "args = [n, p]" using length_two by blast
  from assms obtain rec where "add_phone rec p = Inl e"
    by (auto simp: a add_contact_func_def split: option.splits sum.splits)
  then have "Phone p = Inl e" by (auto simp: add_phone_def split: sum.splits)
  then show ?thesis by (rule Phone_error_line)
qed

lemma change_contact_func_raises:
  assumes "change_contact_func (args, book) = (Inl e, b)"
  shows "caught e \<and> one_line (exc_str e)"
proof (cases "length args = 3")
  case False
  with assms unpack_error_line show ?thesis by (auto simp: change_contact_func_arity)
next
  case True
  then obtain n old new where a: "args = [n, old, new]" using length_three by blast
  from assms consider "e = none_has_no ''change_phone''"
    | rec where "change_phone rec old new = Inl e"
    by (auto simp: a change_contact_func_def split: option.splits sum.splits)
  then show ?thesis
  proof cases
    case 1
    then show ?thesis using none_has_no_line [of "''change_phone''"] by (simp add: one_line_def)
  next
    case 2
    then show ?thesis by (rule change_phone_error_line)
  qed
qed

lemma show_phone_func_raises:
  assumes "show_phone_func (args, book) = (Inl e, b)"
  shows "caught e \<and> one_line (exc_str e)"
proof -
  from assms consider "e = IndexError ''list index out of range''" | "e = none_has_no ''phones''"
    by (auto simp: show_phone_func_def split: list.splits option.splits)
  then show ?thesis
  proof cases
    case 1
    then show ?thesis by (simp add: one_line_def)
  next
    case 2
    then show ?thesis using none_has_no_line [of "''phones''"] by (simp add: one_line_def)
  qed
qed

lemma show_birthday_func_raises:
  assumes "show_birthday_func (args, book) = (Inl e, b)"
  shows "caught e \<and> one_line (exc_str e)"
proof -
  from assms consider "e = IndexError ''list index out of range''" | "e = none_has_no ''birthday''"
    by (auto simp: show_birthday_func_def split: list.splits option.splits)
  then show ?thesis
  proof cases
    case 1
    then show ?thesis by (simp add: one_line_def)
  next
    case 2
    then show ?thesis using none_has_no_line [of "''birthday''"] by (simp add: one_line_def)
  qed
qed

lemma add_birthday_handler_func_raises:
  assumes "add_birthday_handler_func (args, book) = (Inl e, b)"
  shows "caught e \<and> one_line (exc_str e)"
proof (cases "length args = 2")
  case False
  with assms unpack_error_line show ?thesis by (auto simp: add_birthday_handler_func_arity)
next
  case True
  then obtain n bd where a: "args = [n, bd]" using length_two by blast
  from assms obtain rec where "add_birthday rec bd = Inl e"
    by (auto simp: a add_birthday_handler_func_def split: option.splits sum.splits)
  then have "Birthday bd = Inl e" by (auto simp: add_birthday_def split: sum.splits)
  then show ?thesis by (rule Birthday_error_line)
qed

lemma recoveredI:
  assumes "\<And>e b. func a = (Inl e, b) \<Longrightarrow> caught e \<and> one_line (exc_str e)"
  shows "recovered func a"
proof (cases "func a")
  case (Pair x b)
  show ?thesis
  proof (cases x)
    case (Inl e)
    with Pair assms [of e b] show ?thesis
      by (simp add: recovered_def input_error_def one_line_def)
  next
    case (Inr s)
    with Pair show ?thesis by (simp add: recovered_def input_error_def)
  qed
qed

lemma input_error_returns:
  assumes "\<And>e b. func a = (Inl e, b) \<Longrightarrow> caught e"
  shows "\<exists>s. fst (input_error func a) = Inr s"
proof (cases "func a")
  case (Pair x b)
  show ?thesis
  proof (cases x)
    case (Inl e)
    with Pair assms [of e b] show ?thesis by (simp add: input_error_def)
  next
    case (Inr s)
    with Pair show ?thesis by (simp add: input_error_def)
  qed
qed

lemma add_contact_returns: "\<exists>s. fst (add_contact (args, book)) = Inr s"
  unfolding add_contact_def
  by (rule input_error_returns) (drule add_contact_func_raises, simp)

lemma change_contact_returns: "\<exists>s. fst (change_contact (args, book)) = Inr s"
  unfolding change_contact_def
  by (rule input_error_returns) (drule change_contact_func_raises, simp)

lemma show_phone_returns: "\<exists>s. fst (show_phone (args, book)) = Inr s"
  unfolding show_phone_def
  by (rule input_error_returns) (drule show_phone_func_raises, simp)

lemma show_all_returns: "\<exists>s. fst (show_all book) = Inr s"
  by (simp add: show_all_def input_error_def show_all_func_def)

lemma add_birthday_handler_returns: "\<exists>s. fst (add_birthday_handler (args, book)) = Inr s"
  unfolding add_birthday_handler_def
  by (rule input_error_returns) (drule add_birthday_handler_func_raises, simp)

lemma show_birthday_returns: "\<exists>s. fst (show_birthday (args, book)) = Inr s"
  unfolding show_birthday_def
  by (rule input_error_returns) (drule show_birthday_func_raises, simp)

lemma upcoming_birthdays_returns: "\<exists>s. fst (upcoming_birthdays today book) = Inr s"
  unfolding upcoming_birthdays_def
  by (rule input_error_returns) (drule upcoming_birthdays_func_raises, simp)

lemma call_handler_returns: "\<exists>s. fst (call_handler today command args book) = Inr s"
proof -
  have P: "\<And>c x y. (\<exists>s. fst x = Inr s) \<Longrightarrow> (\<exists>s. fst y = Inr s)
      \<Longrightarrow> \<exists>s::string. fst (if c then x else y :: result) = Inr s"
    by simp
  show ?thesis
    unfolding call_handler_def
    by (intro P add_contact_returns change_contact_returns show_phone_returns
        show_all_returns add_birthday_handler_returns show_birthday_returns
        upcoming_birthdays_returns)
qed

lemma step_no_crash: "step today line book \<noteq> Crash e b"
proof (cases "split (strip line)")
  case Nil
  then show ?thesis by (simp add: step_def)
next
  case (Cons c args)
  from call_handler_returns [of today "lower c" args book]
  obtain s where "fst (call_handler today (lower c) args book) = Inr s" by blast
  then obtain b' where "call_handler today (lower c) args book = (Inr s, b')"
    by (cases "call_handler today (lower c) args book") auto
  with Cons show ?thesis by (simp add: step_def Let_def)
qed


lemma input_error_raised:
  "func a = (Inl e, b) \<Longrightarrow> caught e \<Longrightarrow> input_error func a = (Inr (''Error: '' @ exc_str e), b)"
  by (simp add: input_error_def)

text \<open>
  C7, amended: every exception raised inside a handler is a \<open>ValueError\<close>, \<open>IndexError\<close> or
  \<open>AttributeError\<close>, is caught at the boundary of the handler and comes back as the one
  line \<open>Error: \<close> followed by its message (for \<open>birthdays\<close> the message is known to be one
  line when the book satisfies its invariant), and no turn of the loop is left by an
  exception. \<open>add\<close>, \<open>change\<close> and \<open>add-birthday\<close> called with any wrong number of arguments,
  and \<open>phone\<close> and \<open>show-birthday\<close> called with no argument, return such an error line and
  leave the book as it is.
\<close>

theorem handlers_recover_errors:
  "recovered add_contact_func (args, book)
   \<and> recovered change_contact_func (args, book)
   \<and> recovered show_phone_func (args, book)
   \<and> recovered show_all_func book
   \<and> recovered add_birthday_handler_func (args, book)
   \<and> recovered show_birthday_func (args, book)
   \<and> (book_inv book \<longrightarrow> recovered (upcoming_birthdays_func today) book)
   \<and> (\<forall>e b. step today line book \<noteq> Crash e b)
   \<and> (length args \<noteq> 2 \<longrightarrow> add_contact (args, book)
         = (Inr (''Error: '' @ exc_str (unpack_error 2 (length args))), book))
   \<and> (length args \<noteq> 3 \<longrightarrow> change_contact (args, book)
         = (Inr (''Error: '' @ exc_str (unpack_error 3 (length args))), book))
   \<and> (length args \<noteq> 2 \<longrightarrow> add_birthday_handler (args, book)
         = (Inr (''Error: '' @ exc_str (unpack_error 2 (length args))), book))
   \<and> show_phone ([], book) = (Inr ''Error: list index out of range'', book)
   \<and> show_birthday ([], book) = (Inr ''Error: list index out of range'', book)"
proof -
  have 1: "recovered add_contact_func (args, book)"
    by (rule recoveredI) (rule add_contact_func_raises)
  have 2: "recovered change_contact_func (args, book)"
    by (rule recoveredI) (rule change_contact_func_raises)
  have 3: "recovered show_phone_func (args, book)"
    by (rule recoveredI) (rule show_phone_func_raises)
  have 4: "recovered show_all_func book"
    by (rule recoveredI) (simp add: show_all_func_def)
  have 5: "recovered add_birthday_handler_func (args, book)"
    by (rule recoveredI) (rule add_birthday_handler_func_raises)
  have 6: "recovered show_birthday_func (args, book)"
    by (rule recoveredI) (rule show_birthday_func_raises)
  have 7: "book_inv book \<longrightarrow> recovered (upcoming_birthdays_func today) book"
  proof
    assume i: "book_inv book"
    show "recovered (upcoming_birthdays_func today) book"
      by (rule recoveredI) (use i upcoming_birthdays_func_raises in blast)
  qed
  have 8: "\<forall>e b. step today line book \<noteq> Crash e b"
    by (simp add: step_no_crash)
  have 9: "length args \<noteq> 2 \<longrightarrow> add_contact (args, book)
         = (Inr (''Error: '' @ exc_str (unpack_error 2 (length args))), book)"
    by (simp add: add_contact_def input_error_def add_contact_func_arity unpack_error_line)
  have 10: "length args \<noteq> 3 \<longrightarrow> change_contact (args, book)
         = (Inr (''Error: '' @ exc_str (unpack_error 3 (length args))), book)"
    by (simp add: change_contact_def input_error_def change_contact_func_arity unpack_error_line)
  have 11: "length args \<noteq> 2 \<longrightarrow> add_birthday_handler (args, book)
         = (Inr (''Error: '' @ exc_str (unpack_error 2 (length args))), book)"
    by (simp add: add_birthday_handler_def input_error_def add_birthday_handler_func_arity unpack_error_line)
  have 12: "show_phone ([], book) = (Inr ''Error: list index out of range'', book)"
    by (simp add: show_phone_def input_error_def show_phone_func_def)
  have 13: "show_birthday ([], book) = (Inr ''Error: list index out of range'', book)"
    by (simp add: show_birthday_def input_error_def show_birthday_func_def)
  show ?thesis
    by (intro conjI) (rule 1, rule 2, rule 3, rule 4, rule 5, rule 6, rule 7, rule 8, rule 9,
        rule 10, rule 11, rule 12, rule 13)
qed

theorem handlers_recover_errors_witness:
  "add_contact ([''Bob''], [])
     = (Inr ''Error: not enough values to unpack (expected 2, got 1)'', [])
   \<and> recovered (upcoming_birthdays_func \<lparr>year = 2024, month = 6, day = 10\<rparr>) []"
proof -
  have l: "length [''Bob''] \<noteq> 2" by simp
  have m: "''Error: '' @ exc_str (unpack_error 2 (length [''Bob'']))
      = ''Error: not enough values to unpack (expected 2, got 1)''"
    by code_simp
  have a: "add_contact ([''Bob''], [])
      = (Inr (''Error: '' @ exc_str (unpack_error 2 (length [''Bob'']))), [])"
    using handlers_recover_errors [of "[''Bob'']" "[]"] l by blast
  have i: "book_inv []" by (simp add: book_inv_def)
  have b: "recovered (upcoming_birthdays_func \<lparr>year = 2024, month = 6, day = 10\<rparr>) []"
    using handlers_recover_errors [of "[]" "[]" "\<lparr>year = 2024, month = 6, day = 10\<rparr>"] i by blast
  from a have a': "add_contact ([''Bob''], [])
      = (Inr ''Error: not enough values to unpack (expected 2, got 1)'', [])"
    by (simp only: m)
  from a' b show ?thesis by (intro conjI)
qed

text \<open>
  C7, as stated, at a concrete input: \<open>phone\<close> takes one argument; called with two it
  returns the phones of the first and no error line.
\<close>

theorem surplus_argument_counterexample:
  "length [''John'', ''extra''] \<noteq> 1
   \<and> show_phone ([''John'', ''extra''],
        [(''John'', \<lparr>name = ''John'', phones = [''1111111111''], birthday = None\<rparr>)])
      = (Inr ''John: 1111111111'',
         [(''John'', \<lparr>name = ''John'', phones = [''1111111111''], birthday = None\<rparr>)])
   \<and> \<not> is_error_line ''John: 1111111111''
   \<and> step \<lparr>year = 2024, month = 6, day = 10\<rparr> ''phone John extra''
        [(''John'', \<lparr>name = ''John'', phones = [''1111111111''], birthday = None\<rparr>)]
      = Continue [''John: 1111111111'']
        [(''John'', \<lparr>name = ''John'', phones = [''1111111111''], birthday = None\<rparr>)]"
  by code_simp

end
